theory Spec2Isabelle
  imports Main "HOL-Library.Sublist"
begin

section \<open>Materialized paths: the path codec and the tree maintenance of \<open>BaseNode\<close>\<close>

text \<open>
  The development embeds \<^verbatim>\<open>paths/utils.py\<close> and the class \<^verbatim>\<open>BaseNode\<close> of
  \<^verbatim>\<open>paths/models.py\<close>. Python integers are \<open>int\<close>, Python strings are \<open>string\<close>
  (one \<open>char\<close> per code point, so the strings covered are those with code points below
  256), \<^verbatim>\<open>None\<close> is \<open>None\<close> of an option type, and a raised exception is the \<open>Inl\<close>
  of a sum type.
\<close>

subsection \<open>Exceptions\<close>

datatype error = ValueError | IndexError | ValidationError | DoesNotExist

subsection \<open>Python built-ins used by the code\<close>

text \<open>
  \<^verbatim>\<open>int(s, base)\<close> on a string, as CPython's \<^verbatim>\<open>PyLong_FromString\<close> reads it: white
  space around the literal is skipped, one sign is accepted, the digits may be separated
  by single underscores, letters count in either case, and anything else is a
  \<^verbatim>\<open>ValueError\<close>. Only the bases 10 and 36 occur in the code, so no base prefix is
  involved, and the code passes strings of at most nine characters, far below the limit
  that \<^verbatim>\<open>int\<close> puts on the number of digits. White space is what the conversion takes
  for it in the code points below 256: the ASCII white space, and the code points 133 and
  160, which it turns into a space before parsing.
\<close>

definition py_isspace :: "char \<Rightarrow> bool" where
  "py_isspace c \<longleftrightarrow>
     (let k = (of_char c :: nat) in (9 \<le> k \<and> k \<le> 13) \<or> k = 32 \<or> k = 133 \<or> k = 160)"

definition digit_value :: "char \<Rightarrow> nat" where
  "digit_value c =
     (let k = (of_char c :: nat) in
        if 48 \<le> k \<and> k \<le> 57 then k - 48
        else if 65 \<le> k \<and> k \<le> 90 then k - 55
        else if 97 \<le> k \<and> k \<le> 122 then k - 87
        else 37)"

definition is_digit_or_underscore :: "nat \<Rightarrow> char \<Rightarrow> bool" where
  "is_digit_or_underscore base c \<longleftrightarrow> digit_value c < base \<or> c = CHR ''_''"

fun double_underscore :: "string \<Rightarrow> bool" where
  "double_underscore (a # b # cs) =
     ((a = CHR ''_'' \<and> b = CHR ''_'') \<or> double_underscore (b # cs))"
| "double_underscore _ = False"

definition digits_value :: "nat \<Rightarrow> string \<Rightarrow> int" where
  "digits_value base ds = foldl (\<lambda>acc c. acc * int base + int (digit_value c)) 0 ds"

definition py_int :: "nat \<Rightarrow> string \<Rightarrow> error + int" where
  "py_int base s =
     (let s1 = dropWhile py_isspace s;
          negative = (s1 \<noteq> [] \<and> hd s1 = CHR ''-'');
          s2 = (if s1 \<noteq> [] \<and> (hd s1 = CHR ''+'' \<or> hd s1 = CHR ''-'') then tl s1 else s1);
          ds = takeWhile (is_digit_or_underscore base) s2;
          rest = dropWhile (is_digit_or_underscore base) s2
      in if ds = [] \<or> hd ds = CHR ''_'' \<or> last ds = CHR ''_'' \<or> double_underscore ds
            \<or> dropWhile py_isspace rest \<noteq> []
         then Inl ValueError
         else Inr ((if negative then - 1 else 1)
                     * digits_value base (filter (\<lambda>c. c \<noteq> CHR ''_'') ds)))"

text \<open>
  The characters that can occur in a string that \<^verbatim>\<open>int(s, 36)\<close> accepts: the digits and
  letters, the underscore, the signs and white space.
\<close>

definition int_literal_char :: "char \<Rightarrow> bool" where
  "int_literal_char c \<longleftrightarrow>
     digit_value c < 36 \<or> c = CHR ''_'' \<or> c = CHR ''+'' \<or> c = CHR ''-'' \<or> py_isspace c"

text \<open>\<^verbatim>\<open>str(n)\<close> of a non-negative integer: its decimal digits.\<close>

definition decimal_char :: "nat \<Rightarrow> char" where
  "decimal_char d = char_of (48 + d)"

function py_str :: "nat \<Rightarrow> string" where
  "py_str n = (if n < 10 then [decimal_char n] else py_str (n div 10) @ [decimal_char (n mod 10)])"
  by pat_completeness auto
termination
  by (relation "measure (\<lambda>n. n)") auto

declare py_str.simps [simp del]

subsection \<open>\<^verbatim>\<open>paths/utils.py\<close>\<close>

definition digits :: string where
  "digits = ''0123456789ABCDEFGHIJKLMNOPQRSTUVWXYZ''"

text \<open>
  The loop of \<^verbatim>\<open>base36encode\<close>: \<^verbatim>\<open>while not res or num > 0\<close>, with \<^verbatim>\<open>divmod\<close>
  rounding towards minus infinity as \<open>div\<close> and \<open>mod\<close> on \<open>int\<close> do.
\<close>

function base36encode_loop :: "int \<Rightarrow> string \<Rightarrow> string" where
  "base36encode_loop num res =
     (if res = [] \<or> num > 0
      then base36encode_loop (num div 36) ((digits ! nat (num mod 36)) # res)
      else res)"
  by pat_completeness auto
termination
  by (relation "measure (\<lambda>(num, res). nat num + (if res = [] then 1 else 0))") auto

declare base36encode_loop.simps [simp del]

text \<open>
  The argument is an \<open>int\<close>, so the \<^verbatim>\<open>TypeError\<close> of the \<^verbatim>\<open>isinstance\<close> test cannot
  arise.
\<close>

definition base36encode :: "int \<Rightarrow> error + string" where
  "base36encode num =
     (if \<not> num \<ge> 0 then Inl ValueError else Inr (base36encode_loop num []))"

definition base36decode :: "string \<Rightarrow> error + int" where
  "base36decode base36_string = py_int 36 base36_string"

definition xstr :: "string option \<Rightarrow> string" where
  "xstr s = (case s of None \<Rightarrow> [] | Some v \<Rightarrow> v)"

subsection \<open>\<^verbatim>\<open>BaseNode\<close>: the codec class methods\<close>

definition encode_base36_id :: "int \<Rightarrow> error + string" where
  "encode_base36_id num =
     (case base36encode num of
        Inl e \<Rightarrow> Inl e
      | Inr s \<Rightarrow> Inr (py_str (length s) @ s))"

definition decode_base36_id :: "string \<Rightarrow> error + int" where
  "decode_base36_id base36_id = base36decode base36_id"

text \<open>
  The \<^verbatim>\<open>while\<close> loop of \<^verbatim>\<open>decode_path_to_ids\<close>, on the cursor and the list built so
  far. \<^verbatim>\<open>int(path[cursor - 1])\<close> reads one character, so its value is never negative and
  the slice \<^verbatim>\<open>path[cursor:cursor + b36len]\<close> is \<open>take b36len (drop cursor path)\<close>: a
  Python slice stops at the end of the string.
\<close>

function decode_loop :: "string \<Rightarrow> nat \<Rightarrow> int list \<Rightarrow> error + int list" where
  "decode_loop path cursor ids =
     (if cursor < length path then
        (case py_int 10 [path ! (cursor - 1)] of
           Inl e \<Rightarrow> Inl e
         | Inr b36len \<Rightarrow>
             (case decode_base36_id (take (nat b36len) (drop cursor path)) of
                Inl e \<Rightarrow> Inl e
              | Inr v \<Rightarrow> decode_loop path (cursor + nat b36len + 1) (ids @ [v])))
      else Inr ids)"
  by pat_completeness auto
termination
  by (relation "measure (\<lambda>(path, cursor, ids). length path - cursor)") auto

declare decode_loop.simps [simp del]

definition decode_path_to_ids :: "string option \<Rightarrow> error + int list" where
  "decode_path_to_ids path =
     (if path = None \<or> path = Some [] then Inr [] else decode_loop (the path) 1 [])"

fun encode_ids_loop :: "string \<Rightarrow> int list \<Rightarrow> error + string" where
  "encode_ids_loop path [] = Inr path"
| "encode_ids_loop path (i # ids) =
     (case encode_base36_id i of
        Inl e \<Rightarrow> Inl e
      | Inr tok \<Rightarrow> encode_ids_loop (path @ tok) ids)"

definition encode_ids_to_path :: "int list \<Rightarrow> error + string" where
  "encode_ids_to_path ids = encode_ids_loop [] ids"

subsection \<open>The table, its rows and the query operations the code issues\<close>

text \<open>
  A row of the model's table: the primary key \<^verbatim>\<open>id\<close> and the two fields that
  \<^verbatim>\<open>BaseNode\<close> declares, \<^verbatim>\<open>parent_id\<close> (the column of the foreign key \<^verbatim>\<open>parent\<close>)
  and \<^verbatim>\<open>path\<close>, both nullable. The table is the list of its rows.
\<close>

record node =
  pk :: int
  parent_id :: "int option"
  path :: "string option"

type_synonym store = "node list"

text \<open>
  A model instance in memory: the fields of its row, the related object that
  \<^verbatim>\<open>self.parent\<close> yields, \<^verbatim>\<open>_original_parent_id\<close> as \<^verbatim>\<open>__init__\<close> recorded it, and
  \<^verbatim>\<open>_state.adding\<close>. The ORM keeps \<open>parent_id\<close> equal to the key of \<open>parent\<close>; a
  \<open>parent_id\<close> that is set while \<open>parent\<close> is \<open>None\<close> stands for a key without a row, for
  which reading \<^verbatim>\<open>self.parent\<close> raises \<^verbatim>\<open>DoesNotExist\<close>. The key of an instance that is
  being added is the one the table assigns to it.
\<close>

record base_node = node +
  parent :: "node option"
  original_parent_id :: "int option"
  adding :: bool

text \<open>Truth values of Python: \<^verbatim>\<open>None\<close>, the empty string and 0 are false.\<close>

definition truthy_str :: "string option \<Rightarrow> bool" where
  "truthy_str s \<longleftrightarrow> s \<noteq> None \<and> s \<noteq> Some []"

definition truthy_int :: "int option \<Rightarrow> bool" where
  "truthy_int k \<longleftrightarrow> k \<noteq> None \<and> k \<noteq> Some 0"

text \<open>
  \<^verbatim>\<open>a is b\<close> on two integers that were computed separately, as CPython decides it: the
  integers from -5 to 256 are shared objects, any other integer object is distinct from
  every other one.
\<close>

definition py_is :: "int \<Rightarrow> int \<Rightarrow> bool" where
  "py_is a b \<longleftrightarrow> a = b \<and> - 5 \<le> a \<and> a \<le> 256"

text \<open>\<^verbatim>\<open>objects.get(pk=k)\<close>.\<close>

definition objects_get :: "store \<Rightarrow> int \<Rightarrow> error + node" where
  "objects_get st k =
     (case filter (\<lambda>r. pk r = k) st of [] \<Rightarrow> Inl DoesNotExist | r # rs \<Rightarrow> Inr r)"

text \<open>
  The SQL function \<^verbatim>\<open>replace(X, Y, Z)\<close> that the bulk update names, as SQLite (the
  database of \<^verbatim>\<open>runtests.py\<close>) evaluates it: every occurrence of \<open>Y\<close> in \<open>X\<close>, found
  from left to right, is replaced by \<open>Z\<close>. The arguments are examined in order: the
  result is \<^verbatim>\<open>NULL\<close> when \<open>X\<close> or \<open>Y\<close> is \<^verbatim>\<open>NULL\<close>; an empty \<open>Y\<close> returns \<open>X\<close> as it
  is, whatever \<open>Z\<close> is; otherwise the result is \<^verbatim>\<open>NULL\<close> when \<open>Z\<close> is \<^verbatim>\<open>NULL\<close>.
\<close>

function replace_all :: "string \<Rightarrow> string \<Rightarrow> string \<Rightarrow> string" where
  "replace_all x y z =
     (if x = [] \<or> y = [] then x
      else if prefix y x then z @ replace_all (drop (length y) x) y z
      else hd x # replace_all (tl x) y z)"
  by pat_completeness auto
termination
  by (relation "measure (\<lambda>(x, y, z). length x)") auto

declare replace_all.simps [simp del]

definition sql_replace :: "string option \<Rightarrow> string option \<Rightarrow> string option \<Rightarrow> string option" where
  "sql_replace x y z =
     (case x of
        None \<Rightarrow> None
      | Some xs \<Rightarrow>
          (case y of
             None \<Rightarrow> None
           | Some ys \<Rightarrow>
               if ys = [] then Some xs
               else (case z of
                       None \<Rightarrow> None
                     | Some zs \<Rightarrow> Some (replace_all xs ys zs))))"

text \<open>
  The lookup \<^verbatim>\<open>path__startswith\<close>, which is the operator \<^verbatim>\<open>LIKE\<close> with the escaped
  value followed by \<^verbatim>\<open>%\<close>: a row whose path is \<^verbatim>\<open>NULL\<close> never matches, and SQLite
  compares the ASCII letters without regard to their case.
\<close>

definition ascii_upper :: "char \<Rightarrow> char" where
  "ascii_upper c =
     (let k = (of_char c :: nat) in if 97 \<le> k \<and> k \<le> 122 then char_of (k - 32) else c)"

definition path_startswith :: "string \<Rightarrow> node \<Rightarrow> bool" where
  "path_startswith search_partial r =
     (case path r of
        None \<Rightarrow> False
      | Some s \<Rightarrow> prefix (map ascii_upper search_partial) (map ascii_upper s))"

text \<open>
  \<^verbatim>\<open>objects.filter(path__startswith=search_partial).update(path=Func(F('path'),
  Value(remove_partial), Value(new_path), function='replace'))\<close>.
\<close>

definition update_replace :: "store \<Rightarrow> string \<Rightarrow> string \<Rightarrow> string option \<Rightarrow> store" where
  "update_replace st search_partial remove_partial new_path =
     map (\<lambda>r. if path_startswith search_partial r
               then r\<lparr>path := sql_replace (path r) (Some remove_partial) new_path\<rparr>
               else r) st"

text \<open>
  \<^verbatim>\<open>super().save()\<close>: the row of the instance is written over the row with its key, or
  added when the table has none; the instance is no longer an instance being added.
\<close>

definition super_save :: "store \<Rightarrow> base_node \<Rightarrow> store \<times> (error + base_node)" where
  "super_save st self =
     (let row = node.truncate self
      in ((if \<exists>r \<in> set st. pk r = pk self
           then map (\<lambda>r. if pk r = pk self then row else r) st
           else st @ [row]),
          Inr (self\<lparr>adding := False\<rparr>)))"

subsection \<open>\<^verbatim>\<open>BaseNode\<close>: the instance methods\<close>

definition depth :: "'a node_scheme \<Rightarrow> error + int" where
  "depth self =
     (if \<not> truthy_str (path self) then Inr 0
      else (case decode_path_to_ids (path self) of
              Inl e \<Rightarrow> Inl e
            | Inr ids \<Rightarrow> Inr (int (length ids))))"

definition get_descendants_search_partial :: "node \<Rightarrow> error + string" where
  "get_descendants_search_partial self =
     (case encode_base36_id (pk self) of
        Inl e \<Rightarrow> Inl e
      | Inr tok \<Rightarrow> Inr (xstr (path self) @ tok))"

definition get_root :: "store \<Rightarrow> node \<Rightarrow> error + node" where
  "get_root st self =
     (if \<not> truthy_str (path self) then Inr self
      else (case decode_path_to_ids (path self) of
              Inl e \<Rightarrow> Inl e
            | Inr ids \<Rightarrow>
                (case ids of
                   [] \<Rightarrow> Inl IndexError
                 | root_id # rest \<Rightarrow> objects_get st root_id)))"

definition get_ancestor :: "store \<Rightarrow> node \<Rightarrow> int \<Rightarrow> error + node" where
  "get_ancestor st self dep =
     (if dep < 0 then Inl ValueError
      else if py_is dep 0 then get_root st self
      else (case depth self of
              Inl e \<Rightarrow> Inl e
            | Inr self_depth \<Rightarrow>
                if py_is self_depth dep then Inr self
                else if self_depth < dep then Inl ValueError
                else (case decode_path_to_ids (path self) of
                        Inl e \<Rightarrow> Inl e
                      | Inr ids \<Rightarrow>
                          if nat dep < length ids then objects_get st (ids ! nat dep)
                          else Inl IndexError)))"

text \<open>The result is a query set (a list of rows) or \<^verbatim>\<open>None\<close>.\<close>

definition get_siblings :: "store \<Rightarrow> node \<Rightarrow> node list option" where
  "get_siblings st self =
     (if \<not> truthy_int (parent_id self)
      then Some (filter (\<lambda>r. parent_id r = None \<and> pk r \<noteq> pk self) st)
      else (let results = filter (\<lambda>r. parent_id r = parent_id self \<and> pk r \<noteq> pk self) st
            in if results \<noteq> [] then Some results else None))"

text \<open>
  \<^verbatim>\<open>save\<close> returns the table as it is afterwards together with the saved instance, or
  with the exception raised. An exception of the first two branches is raised before any
  statement is sent to the table. In the first branch \<^verbatim>\<open>getattr(self, 'parent', None)\<close>
  reads \<^verbatim>\<open>self.parent\<close>: its default covers an \<^verbatim>\<open>AttributeError\<close> only, so the
  \<^verbatim>\<open>DoesNotExist\<close> of a key without a row is raised.
\<close>

definition save :: "store \<Rightarrow> base_node \<Rightarrow> store \<times> (error + base_node)" where
  "save st self =
     (if adding self then
        (case parent self of
           None \<Rightarrow>
             if parent_id self \<noteq> None then (st, Inl DoesNotExist)
             else super_save st (self\<lparr>path := None\<rparr>)
         | Some p \<Rightarrow>
             if truthy_str (path p) then
               (case encode_base36_id (pk p) of
                  Inl e \<Rightarrow> (st, Inl e)
                | Inr tok \<Rightarrow> super_save st (self\<lparr>path := Some (the (path p) @ tok)\<rparr>))
             else
               (case encode_base36_id (pk p) of
                  Inl e \<Rightarrow> (st, Inl e)
                | Inr tok \<Rightarrow> super_save st (self\<lparr>path := Some tok\<rparr>)))
      else if original_parent_id self \<noteq> parent_id self then
        (case encode_base36_id (pk self) of
           Inl e \<Rightarrow> (st, Inl e)
         | Inr b36str \<Rightarrow>
             (let search_partial = xstr (path self) @ b36str;
                  remove_partial = xstr (path self)
              in if truthy_int (parent_id self) then
                   (case parent self of
                      None \<Rightarrow> (st, Inl DoesNotExist)
                    | Some p \<Rightarrow>
                        (case encode_base36_id (the (parent_id self)) of
                           Inl e \<Rightarrow> (st, Inl e)
                         | Inr tok \<Rightarrow>
                             (let new_path = Some (xstr (path p) @ tok)
                              in case decode_path_to_ids new_path of
                                   Inl e \<Rightarrow> (st, Inl e)
                                 | Inr parent_ids \<Rightarrow>
                                     if pk self \<in> set parent_ids
                                     then (st, Inl ValidationError)
                                     else super_save
                                            (update_replace st search_partial remove_partial new_path)
                                            (self\<lparr>path := new_path\<rparr>))))
                 else super_save
                        (update_replace st search_partial remove_partial None)
                        (self\<lparr>path := None\<rparr>)))
      else super_save st self)"

subsection \<open>Well-formed paths\<close>

text \<open>
  The body of a token: a base-36 numeral in the digits \<^verbatim>\<open>0-9A-Z\<close>, most significant
  digit first, without leading zeros (zero itself is \<^verbatim>\<open>0\<close>). A well-formed path is a
  sequence of tokens, each a decimal length digit from 1 to 9 followed by a body of that
  length.
\<close>

definition canonical_body :: "string \<Rightarrow> bool" where
  "canonical_body b \<longleftrightarrow> b \<noteq> [] \<and> set b \<subseteq> set digits \<and> (hd b = CHR ''0'' \<longrightarrow> b = ''0'')"

function well_formed_path :: "string \<Rightarrow> bool" where
  "well_formed_path p =
     (if p = [] then True
      else (let k = digit_value (hd p); s = tl p
            in 1 \<le> k \<and> k \<le> 9 \<and> k \<le> length s \<and> canonical_body (take k s)
               \<and> well_formed_path (drop k s)))"
  by pat_completeness auto
termination
  by (relation "measure length") auto

declare well_formed_path.simps [simp del]

section \<open>Properties of the codec\<close>

subsection \<open>Digits and \<^verbatim>\<open>int\<close>\<close>

lemma digits_value_snoc:
  "digits_value b (xs @ [c]) = digits_value b xs * int b + int (digit_value c)"
  by (simp add: digits_value_def)

lemma digits_value_Nil: "digits_value b [] = 0"
  by (simp add: digits_value_def)

lemma digit_value_digits_all: "list_all (\<lambda>k. digit_value (digits ! k) = k) [0..<36]"
  by code_simp

lemma digit_value_digits: "k < 36 \<Longrightarrow> digit_value (digits ! k) = k"
  using digit_value_digits_all by (simp add: list_all_iff)

lemma length_digits: "length digits = 36"
  by (simp add: digits_def)

lemma digits_inverse_all: "list_all (\<lambda>c. digits ! digit_value c = c) digits"
  by code_simp

lemma digits_digit_value: "c \<in> set digits \<Longrightarrow> digits ! digit_value c = c"
  using digits_inverse_all by (simp add: list_all_iff)

lemma digit_value_lt_all: "list_all (\<lambda>c. digit_value c < 36) digits"
  by code_simp

lemma digit_value_lt: "c \<in> set digits \<Longrightarrow> digit_value c < 36"
  using digit_value_lt_all by (simp add: list_all_iff)

lemma digit_not_special:
  "digit_value c < 37 \<Longrightarrow> \<not> py_isspace c \<and> c \<noteq> CHR ''_'' \<and> c \<noteq> CHR ''+'' \<and> c \<noteq> CHR ''-''"
  by (auto simp: digit_value_def py_isspace_def Let_def split: if_splits)

lemma double_underscore_mem: "double_underscore s \<Longrightarrow> CHR ''_'' \<in> set s"
  by (induction s rule: double_underscore.induct) auto

lemma py_int_clean:
  assumes "s \<noteq> []" and "\<forall>c \<in> set s. digit_value c < base" and "base \<le> 36"
  shows "py_int base s = Inr (digits_value base s)"
proof -
  have ns: "\<forall>c \<in> set s. \<not> py_isspace c \<and> c \<noteq> CHR ''_'' \<and> c \<noteq> CHR ''+'' \<and> c \<noteq> CHR ''-''"
  proof
    fix c assume "c \<in> set s"
    then have "digit_value c < 37" using assms(2,3) by fastforce
    then show "\<not> py_isspace c \<and> c \<noteq> CHR ''_'' \<and> c \<noteq> CHR ''+'' \<and> c \<noteq> CHR ''-''"
      by (rule digit_not_special)
  qed
  obtain x xs where s: "s = x # xs" using assms(1) by (cases s) auto
  have 1: "dropWhile py_isspace s = s" using ns s by simp
  have 2: "takeWhile (is_digit_or_underscore base) s = s"
    using assms(2) by (simp add: takeWhile_eq_all_conv is_digit_or_underscore_def)
  have 3: "dropWhile (is_digit_or_underscore base) s = []"
    using assms(2) by (simp add: is_digit_or_underscore_def)
  have 4: "\<not> double_underscore s" using ns double_underscore_mem by blast
  have 5: "filter (\<lambda>c. c \<noteq> CHR ''_'') s = s" using ns by (simp add: filter_id_conv)
  have 6: "hd s \<noteq> CHR ''_'' \<and> hd s \<noteq> CHR ''+'' \<and> hd s \<noteq> CHR ''-'' \<and> last s \<noteq> CHR ''_''"
    using ns assms(1) by (metis hd_in_set last_in_set)
  show ?thesis
    unfolding py_int_def Let_def 1 using assms(1) 6 by (simp add: 2 3 4 5)
qed

subsection \<open>The base-36 numeral of \<^verbatim>\<open>base36encode\<close>\<close>

lemma loop_step:
  "0 < num \<or> res = [] \<Longrightarrow>
   base36encode_loop num res = base36encode_loop (num div 36) (digits ! nat (num mod 36) # res)"
  by (subst base36encode_loop.simps) auto

lemma loop_stop: "num \<le> 0 \<Longrightarrow> res \<noteq> [] \<Longrightarrow> base36encode_loop num res = res"
  by (subst base36encode_loop.simps) auto

lemma loop_app:
  "0 < num \<Longrightarrow> base36encode_loop num res = base36encode_loop num [] @ res"
proof (induction "nat num" arbitrary: num res rule: less_induct)
  case less
  let ?d = "digits ! nat (num mod 36)"
  have step: "base36encode_loop num r = base36encode_loop (num div 36) (?d # r)" for r
    using less.prems by (simp add: loop_step)
  show ?case
  proof (cases "0 < num div 36")
    case True
    have lt: "nat (num div 36) < nat num" using less.prems by simp
    have "base36encode_loop (num div 36) (?d # res) = base36encode_loop (num div 36) [] @ ?d # res"
      using less.hyps[OF lt True] .
    moreover have "base36encode_loop (num div 36) [?d] = base36encode_loop (num div 36) [] @ [?d]"
      using less.hyps[OF lt True] .
    ultimately show ?thesis by (simp add: step)
  next
    case False
    then have "num div 36 \<le> 0" by simp
    then have "base36encode_loop (num div 36) (?d # r) = ?d # r" for r
      by (simp add: loop_stop)
    then show ?thesis by (simp add: step)
  qed
qed

lemma b36_small:
  "0 \<le> n \<Longrightarrow> n < 36 \<Longrightarrow> base36encode_loop n [] = [digits ! nat n]"
  by (simp add: loop_step loop_stop)

lemma b36_rec:
  "36 \<le> n \<Longrightarrow>
   base36encode_loop n [] = base36encode_loop (n div 36) [] @ [digits ! nat (n mod 36)]"
proof -
  assume n: "36 \<le> n"
  then have pos: "0 < n div 36" by simp
  have "base36encode_loop n [] = base36encode_loop (n div 36) [digits ! nat (n mod 36)]"
    by (rule loop_step) simp
  also have "\<dots> = base36encode_loop (n div 36) [] @ [digits ! nat (n mod 36)]"
    using pos by (rule loop_app)
  finally show ?thesis .
qed

lemma b36_induct [consumes 1, case_names small rec]:
  assumes "0 \<le> (n::int)"
    and "\<And>n. 0 \<le> n \<Longrightarrow> n < 36 \<Longrightarrow> P n"
    and "\<And>n. 36 \<le> n \<Longrightarrow> P (n div 36) \<Longrightarrow> P n"
  shows "P n"
  using assms(1)
proof (induction "nat n" arbitrary: n rule: less_induct)
  case less
  show ?case
  proof (cases "n < 36")
    case True
    then show ?thesis using less.prems assms(2) by simp
  next
    case False
    then have "nat (n div 36) < nat n" "0 \<le> n div 36" by simp_all
    then have "P (n div 36)" using less.hyps by blast
    then show ?thesis using False assms(3) by simp
  qed
qed

lemma b36_value: "0 \<le> n \<Longrightarrow> digits_value 36 (base36encode_loop n []) = n"
proof (induction n rule: b36_induct)
  case (small n)
  then show ?case
    by (simp add: b36_small digits_value_def digit_value_digits)
next
  case (rec n)
  have "nat (n mod 36) < 36" by simp
  then show ?case using rec
    by (simp add: b36_rec digits_value_snoc digit_value_digits)
qed

lemma b36_chars: "0 \<le> n \<Longrightarrow> set (base36encode_loop n []) \<subseteq> set digits"
proof (induction n rule: b36_induct)
  case (small n)
  then show ?case by (simp add: b36_small length_digits)
next
  case (rec n)
  have "nat (n mod 36) < length digits" by (simp add: length_digits)
  then show ?case using rec by (simp add: b36_rec)
qed

lemma b36_nonempty: "base36encode_loop n [] \<noteq> []"
  by (subst base36encode_loop.simps) (metis base36encode_loop.simps list.distinct(1) loop_app loop_stop not_le append_is_Nil_conv)

lemma b36_length: "0 \<le> n \<Longrightarrow> n < 36 ^ k \<Longrightarrow> 0 < k \<Longrightarrow> length (base36encode_loop n []) \<le> k"
proof (induction n arbitrary: k rule: b36_induct)
  case (small n)
  then show ?case by (simp add: b36_small)
next
  case (rec n)
  obtain j where k: "k = Suc j" using rec.prems by (cases k) auto
  have "j \<noteq> 0" using rec.hyps rec.prems k by (cases "j = 0") auto
  moreover have "n div 36 < 36 ^ j" using rec.prems k by (simp add: div_less_iff_less_mult) 
  ultimately have "length (base36encode_loop (n div 36) []) \<le> j" using rec.IH by simp
  then show ?case using rec.hyps k by (simp add: b36_rec)
qed

lemma b36_leading: "0 < n \<Longrightarrow> hd (base36encode_loop n []) \<noteq> CHR ''0''"
proof -
  assume "0 < n"
  then have "0 \<le> n" "0 < n" by simp_all
  then show ?thesis
  proof (induction n rule: b36_induct)
    case (small n)
    then have "digit_value (digits ! nat n) = nat n" by (simp add: digit_value_digits)
    moreover have "digit_value CHR ''0'' = 0" by (simp add: digit_value_def)
    ultimately show ?case using small by (auto simp: b36_small)
  next
    case (rec n)
    then have "0 < n div 36" by simp
    then show ?case using rec by (simp add: b36_rec b36_nonempty)
  qed
qed

lemma b36_zero: "base36encode_loop 0 [] = ''0''"
  by (simp add: b36_small digits_def)

subsection \<open>Length digits\<close>

lemma py_str_small: "n < 10 \<Longrightarrow> py_str n = [decimal_char n]"
  by (subst py_str.simps) simp

lemma of_char_decimal_char: "k < 10 \<Longrightarrow> (of_char (decimal_char k) :: nat) = 48 + k"
  by (simp add: decimal_char_def)

lemma digit_value_decimal_char: "k < 10 \<Longrightarrow> digit_value (decimal_char k) = k"
  by (simp add: digit_value_def of_char_decimal_char)

lemma digit_value_lt10:
  "digit_value d < 10 \<Longrightarrow> 48 \<le> (of_char d :: nat) \<and> digit_value d = of_char d - 48"
  unfolding digit_value_def Let_def by (simp split: if_splits)

lemma decimal_char_digit_value: "digit_value d < 10 \<Longrightarrow> decimal_char (digit_value d) = d"
proof -
  assume "digit_value d < 10"
  then have "48 + digit_value d = (of_char d :: nat)" using digit_value_lt10 by fastforce
  then show ?thesis unfolding decimal_char_def by (simp only: char_of_char)
qed

lemma py_int_decimal: "digit_value d < 10 \<Longrightarrow> py_int 10 [d] = Inr (int (digit_value d))"
  by (simp add: py_int_clean digits_value_def)

subsection \<open>The decoding loop read token by token\<close>

lemma if_Inl_Inr: "(if c then Inl a else Inr x) = Inl e \<Longrightarrow> e = a"
  by (cases c) auto

lemma py_int_only_ValueError: "py_int base s = Inl e \<Longrightarrow> e = ValueError"
  unfolding py_int_def Let_def by (rule if_Inl_Inr)

lemma decode_loop_end: "length p \<le> c \<Longrightarrow> decode_loop p c acc = Inr acc"
  by (subst decode_loop.simps) simp

lemma decode_loop_shift:
  "0 < c \<Longrightarrow> decode_loop (pre @ s) (length pre + c) acc = decode_loop s c acc"
proof (induction s c acc rule: decode_loop.induct)
  case (1 path cursor ids)
  note L = decode_loop.simps[of "pre @ path" "length pre + cursor" ids]
  note R = decode_loop.simps[of path cursor ids]
  show ?case
  proof (cases "cursor < length path")
    case False
    then show ?thesis by (simp add: L R)
  next
    case True
    have nth: "(pre @ path) ! (length pre + cursor - 1) = path ! (cursor - 1)"
    proof -
      have "length pre + cursor - 1 = length pre + (cursor - 1)" using "1.prems" by simp
      then show ?thesis by (simp only: nth_append_length_plus)
    qed
    show ?thesis
    proof (cases "py_int 10 [path ! (cursor - 1)]")
      case (Inl e)
      then show ?thesis using True nth by (simp add: L R)
    next
      case (Inr k)
      note k = this
      show ?thesis
      proof (cases "decode_base36_id (take (nat k) (drop cursor path))")
        case (Inl e)
        then show ?thesis using True k nth by (simp add: L R)
      next
        case (Inr v)
        have "decode_loop (pre @ path) (length pre + (cursor + nat k + 1)) (ids @ [v])
              = decode_loop path (cursor + nat k + 1) (ids @ [v])"
          using "1.IH"[OF True k Inr] by simp
        then show ?thesis using True k Inr nth by (simp add: L R add.assoc)
      qed
    qed
  qed
qed

lemma decode_loop_head:
  assumes "s \<noteq> []"
  shows "decode_loop (d # s) 1 acc =
           (case py_int 10 [d] of
              Inl e \<Rightarrow> Inl e
            | Inr k \<Rightarrow>
                (case decode_base36_id (take (nat k) s) of
                   Inl e \<Rightarrow> Inl e
                 | Inr v \<Rightarrow> decode_loop (drop (nat k) s) 1 (acc @ [v])))"
proof -
  have rest: "decode_loop (d # s) (1 + n + 1) a = decode_loop (drop n s) 1 a" for n a
  proof (cases "n \<le> length s")
    case True
    have "decode_loop ((d # take n s) @ drop n s) (length (d # take n s) + 1) a
            = decode_loop (drop n s) 1 a"
      by (rule decode_loop_shift) simp
    moreover have "min (length s) n = n" using True by simp
    ultimately show ?thesis by simp
  next
    case False
    then show ?thesis by (simp add: decode_loop_end)
  qed
  show ?thesis
    using assms rest
    by (subst decode_loop.simps) (simp split: sum.splits)
qed

lemma decode_loop_single: "decode_loop [c] 1 acc = Inr acc"
  by (simp add: decode_loop_end)

lemma decode_loop_Nil: "decode_loop [] 1 acc = Inr acc"
  by (simp add: decode_loop_end)

subsection \<open>Decoding an encoded list\<close>

lemma encode_base36_id_nonneg:
  "0 \<le> n \<Longrightarrow>
   encode_base36_id n =
     Inr (py_str (length (base36encode_loop n [])) @ base36encode_loop n [])"
  by (simp add: encode_base36_id_def base36encode_def)

lemma encode_base36_id_negative: "n < 0 \<Longrightarrow> encode_base36_id n = Inl ValueError"
  by (simp add: encode_base36_id_def base36encode_def)

lemma encode_base36_id_short:
  assumes "0 \<le> n" and "length (base36encode_loop n []) \<le> 9"
  shows "encode_base36_id n =
           Inr (decimal_char (length (base36encode_loop n [])) # base36encode_loop n [])"
  using assms by (simp add: encode_base36_id_nonneg py_str_small)

lemma b36_length9: "0 \<le> n \<Longrightarrow> n < 36 ^ 9 \<Longrightarrow> length (base36encode_loop n []) \<le> 9"
  by (rule b36_length) simp_all

lemma decode_base36_id_b36: "0 \<le> n \<Longrightarrow> decode_base36_id (base36encode_loop n []) = Inr n"
proof -
  assume n: "0 \<le> n"
  have "\<forall>c \<in> set (base36encode_loop n []). digit_value c < 36"
    using b36_chars[OF n] digit_value_lt by blast
  then have "py_int 36 (base36encode_loop n []) = Inr (digits_value 36 (base36encode_loop n []))"
    by (intro py_int_clean b36_nonempty) simp_all
  then show ?thesis using n by (simp add: decode_base36_id_def base36decode_def b36_value)
qed

lemma decode_loop_token:
  assumes "0 \<le> n" and "n < 36 ^ 9" and "encode_base36_id n = Inr tok"
  shows "decode_loop (tok @ s) 1 acc = decode_loop s 1 (acc @ [n])"
proof -
  let ?b = "base36encode_loop n []"
  have len: "length ?b \<le> 9" using assms(1,2) by (rule b36_length9)
  have tok: "tok = decimal_char (length ?b) # ?b"
    using assms(1,3) len by (simp add: encode_base36_id_short)
  have d: "py_int 10 [decimal_char (length ?b)] = Inr (int (length ?b))"
    using len py_int_decimal[of "decimal_char (length ?b)"] by (simp add: digit_value_decimal_char)
  have ne: "?b @ s \<noteq> []" by (simp add: b36_nonempty)
  have "decode_loop (decimal_char (length ?b) # (?b @ s)) 1 acc =
          (case py_int 10 [decimal_char (length ?b)] of
             Inl e \<Rightarrow> Inl e
           | Inr k \<Rightarrow>
               (case decode_base36_id (take (nat k) (?b @ s)) of
                  Inl e \<Rightarrow> Inl e
                | Inr v \<Rightarrow> decode_loop (drop (nat k) (?b @ s)) 1 (acc @ [v])))"
    using ne by (rule decode_loop_head)
  also have "\<dots> = decode_loop s 1 (acc @ [n])"
    using assms(1) by (simp add: d decode_base36_id_b36)
  finally show ?thesis by (simp add: tok)
qed

lemma encode_ids_loop_acc:
  "encode_ids_loop acc ids =
     (case encode_ids_loop [] ids of Inl e \<Rightarrow> Inl e | Inr s \<Rightarrow> Inr (acc @ s))"
proof (induction ids arbitrary: acc)
  case Nil
  then show ?case by simp
next
  case (Cons i ids)
  show ?case
  proof (cases "encode_base36_id i")
    case (Inl e)
    then show ?thesis by simp
  next
    case (Inr tok)
    then show ?thesis
      using Cons.IH[of "acc @ tok"] Cons.IH[of tok] by (simp split: sum.splits)
  qed
qed

lemma encode_ids_to_path_Nil: "encode_ids_to_path [] = Inr []"
  by (simp add: encode_ids_to_path_def)

lemma encode_ids_to_path_Cons:
  "encode_ids_to_path (i # ids) =
     (case encode_base36_id i of
        Inl e \<Rightarrow> Inl e
      | Inr tok \<Rightarrow>
          (case encode_ids_to_path ids of Inl e \<Rightarrow> Inl e | Inr s \<Rightarrow> Inr (tok @ s)))"
proof (cases "encode_base36_id i")
  case (Inl e)
  then show ?thesis by (simp add: encode_ids_to_path_def)
next
  case (Inr tok)
  then show ?thesis
    using encode_ids_loop_acc[of tok ids] by (simp add: encode_ids_to_path_def)
qed

lemma encode_ids_to_path_snoc:
  "encode_ids_to_path (ids @ [i]) =
     (case encode_ids_to_path ids of
        Inl e \<Rightarrow> Inl e
      | Inr s \<Rightarrow>
          (case encode_base36_id i of Inl e \<Rightarrow> Inl e | Inr tok \<Rightarrow> Inr (s @ tok)))"
  by (induction ids) (simp_all add: encode_ids_to_path_Cons encode_ids_to_path_Nil split: sum.splits)

lemma encode_ids_to_path_total:
  "\<forall>i \<in> set ids. 0 \<le> i \<Longrightarrow> \<exists>p. encode_ids_to_path ids = Inr p"
  by (induction ids)
     (auto simp: encode_ids_to_path_Cons encode_ids_to_path_Nil encode_base36_id_nonneg)

lemma decode_loop_encoded:
  "\<forall>i \<in> set ids. 0 \<le> i \<and> i < 36 ^ 9 \<Longrightarrow> encode_ids_to_path ids = Inr p \<Longrightarrow>
   decode_loop (p @ s) 1 acc = decode_loop s 1 (acc @ ids)"
proof (induction ids arbitrary: p acc)
  case Nil
  then show ?case by (simp add: encode_ids_to_path_Nil)
next
  case (Cons i ids)
  from Cons.prems(2) obtain tok q where
    tok: "encode_base36_id i = Inr tok" and q: "encode_ids_to_path ids = Inr q" and p: "p = tok @ q"
    by (auto simp: encode_ids_to_path_Cons split: sum.splits)
  have "decode_loop (tok @ (q @ s)) 1 acc = decode_loop (q @ s) 1 (acc @ [i])"
    using Cons.prems(1) tok by (intro decode_loop_token) simp_all
  also have "\<dots> = decode_loop s 1 ((acc @ [i]) @ ids)"
    using Cons.prems(1) q by (intro Cons.IH) simp_all
  finally show ?case by (simp add: p)
qed

lemma encode_Nil_iff:
  "encode_ids_to_path ids = Inr [] \<Longrightarrow> ids = []"
proof (cases ids)
  case Nil
  then show ?thesis by simp
next
  case (Cons i rest)
  assume "encode_ids_to_path ids = Inr []"
  then show ?thesis unfolding Cons
    by (auto simp: encode_ids_to_path_Cons encode_base36_id_def split: sum.splits)
       (metis py_str.simps append_is_Nil_conv list.distinct(1))
qed

lemma decode_encode:
  assumes "\<forall>i \<in> set ids. 0 \<le> i \<and> i < 36 ^ 9" and "encode_ids_to_path ids = Inr p"
  shows "decode_path_to_ids (Some p) = Inr ids"
proof (cases "p = []")
  case True
  then have "ids = []" using assms(2) encode_Nil_iff by blast
  then show ?thesis using True by (simp add: decode_path_to_ids_def)
next
  case False
  have "decode_loop (p @ []) 1 [] = decode_loop [] 1 ([] @ ids)"
    using assms by (rule decode_loop_encoded)
  then have "decode_loop p 1 [] = Inr ids" by (simp only: append_Nil2 append_Nil decode_loop_Nil)
  then show ?thesis using False by (simp add: decode_path_to_ids_def)
qed

subsection \<open>Encoding a decoded well-formed path\<close>

lemma digits_value_bound:
  "\<forall>c \<in> set b. digit_value c < 36 \<Longrightarrow>
   0 \<le> digits_value 36 b \<and> digits_value 36 b < 36 ^ length b"
proof (induction b rule: rev_induct)
  case Nil
  then show ?case by (simp add: digits_value_Nil)
next
  case (snoc c b)
  then have "0 \<le> digits_value 36 b" "digits_value 36 b + 1 \<le> 36 ^ length b"
    and "int (digit_value c) < 36"
    by simp_all
  then show ?case by (simp add: digits_value_snoc)
qed

lemma canonical_round_trip:
  "canonical_body b \<Longrightarrow> base36encode_loop (digits_value 36 b) [] = b"
proof (induction b rule: rev_induct)
  case Nil
  then show ?case by (simp add: canonical_body_def)
next
  case (snoc c b)
  have c: "c \<in> set digits" using snoc.prems by (simp add: canonical_body_def)
  then have dc: "digit_value c < 36" by (rule digit_value_lt)
  show ?case
  proof (cases "b = []")
    case True
    have "digits_value 36 [c] = int (digit_value c)"
      by (simp add: digits_value_def)
    then show ?thesis using True c dc
      by (simp add: b36_small digits_digit_value)
  next
    case False
    then have hd: "hd b \<noteq> CHR ''0''" using snoc.prems by (auto simp: canonical_body_def)
    then have cb: "canonical_body b" using snoc.prems False by (simp add: canonical_body_def)
    then have IH: "base36encode_loop (digits_value 36 b) [] = b" by (rule snoc.IH)
    have "\<forall>x \<in> set b. digit_value x < 36" using cb digit_value_lt by (auto simp: canonical_body_def)
    then have nonneg: "0 \<le> digits_value 36 b" using digits_value_bound by blast
    have "digits_value 36 b \<noteq> 0"
    proof
      assume "digits_value 36 b = 0"
      then have "b = ''0''" using IH b36_zero by simp
      then show False using hd by simp
    qed
    then have pos: "1 \<le> digits_value 36 b" using nonneg by simp
    let ?v = "digits_value 36 b * 36 + int (digit_value c)"
    have "36 \<le> ?v" using pos by simp
    then have "base36encode_loop ?v [] = base36encode_loop (?v div 36) [] @ [digits ! nat (?v mod 36)]"
      by (rule b36_rec)
    moreover have "?v div 36 = digits_value 36 b" using dc by simp
    moreover have "?v mod 36 = int (digit_value c)" using dc by simp
    ultimately show ?thesis using IH c
      by (simp add: digits_value_snoc digits_digit_value)
  qed
qed

lemma well_formed_encoded:
  "well_formed_path p \<Longrightarrow>
   \<exists>ids. (\<forall>i \<in> set ids. 0 \<le> i \<and> i < 36 ^ 9) \<and> encode_ids_to_path ids = Inr p"
proof (induction p rule: well_formed_path.induct)
  case (1 p)
  show ?case
  proof (cases "p = []")
    case True
    have "(\<forall>i \<in> set []. 0 \<le> i \<and> i < (36::int) ^ 9) \<and> encode_ids_to_path [] = Inr p"
      using True by (simp add: encode_ids_to_path_Nil)
    then show ?thesis by (rule exI)
  next
    case False
    define k where "k = digit_value (hd p)"
    define b where "b = take k (tl p)"
    define rest where "rest = drop k (tl p)"
    from "1.prems" False
    have wf: "1 \<le> k" "k \<le> 9" "k \<le> length (tl p)" "canonical_body b" "well_formed_path rest"
      unfolding k_def b_def rest_def
      by (subst (asm) well_formed_path.simps, simp add: Let_def)+
    from "1.IH"[OF False refl refl] wf(5) obtain ids where
      ids: "\<forall>i \<in> set ids. 0 \<le> i \<and> i < 36 ^ 9" "encode_ids_to_path ids = Inr rest"
      unfolding k_def rest_def by blast
    let ?v = "digits_value 36 b"
    have lenb: "length b = k" using wf(3) by (simp add: b_def)
    have chars: "\<forall>x \<in> set b. digit_value x < 36"
      using wf(4) digit_value_lt by (auto simp: canonical_body_def)
    have v: "0 \<le> ?v" "?v < 36 ^ 9"
    proof -
      show "0 \<le> ?v" using digits_value_bound[OF chars] by simp
      have "?v < 36 ^ k" using digits_value_bound[OF chars] lenb by simp
      moreover have "(36::int) ^ k \<le> 36 ^ 9" using wf(2) by (intro power_increasing) simp_all
      ultimately show "?v < 36 ^ 9" by simp
    qed
    have B: "base36encode_loop ?v [] = b" using wf(4) by (rule canonical_round_trip)
    have "decimal_char k = hd p" using wf(2) by (simp add: k_def decimal_char_digit_value)
    then have tok: "encode_base36_id ?v = Inr (hd p # b)"
      using v(1) wf(2) lenb by (simp add: encode_base36_id_short B)
    have "p = (hd p # b) @ rest" using False by (simp add: b_def rest_def)
    then have "encode_ids_to_path (?v # ids) = Inr p"
      using tok ids(2) by (simp add: encode_ids_to_path_Cons)
    moreover have "\<forall>i \<in> set (?v # ids). 0 \<le> i \<and> i < 36 ^ 9" using v ids(1) by simp
    ultimately show ?thesis by blast
  qed
qed

lemma encode_decode:
  "well_formed_path p \<Longrightarrow>
   \<exists>ids. decode_path_to_ids (Some p) = Inr ids \<and> encode_ids_to_path ids = Inr p"
  using well_formed_encoded decode_encode by blast

subsection \<open>What \<^verbatim>\<open>int\<close> rejects, and the tail after the encoded tokens\<close>

lemma py_int_chars:
  assumes "py_int base s = Inr v" and "base \<le> 36"
  shows "\<forall>x \<in> set s. int_literal_char x"
proof -
  define s1 where "s1 = dropWhile py_isspace s"
  define s2 where "s2 = (if s1 \<noteq> [] \<and> (hd s1 = CHR ''+'' \<or> hd s1 = CHR ''-'') then tl s1 else s1)"
  define ds where "ds = takeWhile (is_digit_or_underscore base) s2"
  define rest where "rest = dropWhile (is_digit_or_underscore base) s2"
  have ok: "dropWhile py_isspace rest = []"
    using assms(1) unfolding py_int_def Let_def s1_def[symmetric] s2_def[symmetric]
      ds_def[symmetric] rest_def[symmetric]
    by (simp split: if_splits)
  have a: "\<forall>x \<in> set (takeWhile py_isspace s). int_literal_char x"
    by (auto simp: int_literal_char_def dest: set_takeWhileD)
  have b: "\<forall>x \<in> set rest. int_literal_char x"
    using ok by (auto simp: int_literal_char_def dropWhile_eq_Nil_conv)
  have c: "\<forall>x \<in> set ds. int_literal_char x"
    using assms(2) unfolding ds_def
    by (auto simp: int_literal_char_def is_digit_or_underscore_def dest!: set_takeWhileD)
  have "s2 = ds @ rest" by (simp add: ds_def rest_def)
  then have d: "\<forall>x \<in> set s2. int_literal_char x" using b c by auto
  have e: "\<forall>x \<in> set s1. int_literal_char x"
  proof (cases "s1 \<noteq> [] \<and> (hd s1 = CHR ''+'' \<or> hd s1 = CHR ''-'')")
    case True
    then have "s1 = hd s1 # s2" by (simp add: s2_def)
    moreover have "int_literal_char (hd s1)" using True by (auto simp: int_literal_char_def)
    ultimately show ?thesis using d by (metis set_ConsD)
  next
    case False
    then have "s2 = s1" unfolding s2_def by (simp only: if_False)
    then show ?thesis using d by simp
  qed
  have "s = takeWhile py_isspace s @ s1" by (simp add: s1_def)
  then have "set s = set (takeWhile py_isspace s) \<union> set s1" by (metis set_append)
  then show ?thesis using a e by blast
qed

lemma py_int_bad_char:
  assumes "x \<in> set s" and "\<not> int_literal_char x" and "base \<le> 36"
  shows "py_int base s = Inl ValueError"
proof (cases "py_int base s")
  case (Inl e)
  then show ?thesis using py_int_only_ValueError by blast
next
  case (Inr v)
  then show ?thesis using py_int_chars assms by blast
qed

lemma py_int_has_digit:
  assumes "py_int base s = Inr v"
  shows "\<exists>x \<in> set s. digit_value x < base"
proof -
  define s1 where "s1 = dropWhile py_isspace s"
  define s2 where "s2 = (if s1 \<noteq> [] \<and> (hd s1 = CHR ''+'' \<or> hd s1 = CHR ''-'') then tl s1 else s1)"
  define ds where "ds = takeWhile (is_digit_or_underscore base) s2"
  have ok: "ds \<noteq> [] \<and> hd ds \<noteq> CHR ''_''"
    using assms unfolding py_int_def Let_def s1_def[symmetric] s2_def[symmetric]
      ds_def[symmetric]
    by (simp split: if_splits)
  then have "hd ds \<in> set ds" by simp
  then have "is_digit_or_underscore base (hd ds)" and in2: "hd ds \<in> set s2"
    unfolding ds_def by (auto dest: set_takeWhileD)
  then have dig: "digit_value (hd ds) < base" using ok by (simp add: is_digit_or_underscore_def)
  have "set s2 \<subseteq> set s1"
  proof (cases "s1 \<noteq> [] \<and> (hd s1 = CHR ''+'' \<or> hd s1 = CHR ''-'')")
    case True
    then have "s2 = tl s1" by (simp add: s2_def)
    then show ?thesis using True by (metis list.set_sel(2) subsetI)
  next
    case False
    then have "s2 = s1" unfolding s2_def by (simp only: if_False)
    then show ?thesis by simp
  qed
  moreover have "set s1 \<subseteq> set s" unfolding s1_def by (auto dest: set_dropWhileD)
  ultimately have "hd ds \<in> set s" using in2 by blast
  then show ?thesis using dig by blast
qed

lemma py_int_single_fail: "10 \<le> digit_value d \<Longrightarrow> py_int 10 [d] = Inl ValueError"
proof (cases "py_int 10 [d]")
  case (Inl e)
  then show ?thesis using py_int_only_ValueError by blast
next
  case (Inr v)
  assume "10 \<le> digit_value d"
  then show ?thesis using py_int_has_digit[OF Inr] by simp
qed

lemma decode_after_encoded:
  assumes "\<forall>i \<in> set ids. 0 \<le> i \<and> i < 36 ^ 9" and "encode_ids_to_path ids = Inr p"
    and "t \<noteq> []"
  shows "decode_path_to_ids (Some (p @ t)) = decode_loop t 1 ids"
proof -
  have "decode_loop (p @ t) 1 [] = decode_loop t 1 ([] @ ids)"
    using assms(1,2) by (rule decode_loop_encoded)
  then show ?thesis using assms(3) by (simp add: decode_path_to_ids_def)
qed

lemma decode_loop_bad_length:
  "s \<noteq> [] \<Longrightarrow> 10 \<le> digit_value d \<Longrightarrow> decode_loop (d # s) 1 acc = Inl ValueError"
  using decode_loop_head[of s d acc] by (simp add: py_int_single_fail)

lemma decode_loop_body:
  assumes "s \<noteq> []" and "digit_value d < 10"
  shows "decode_loop (d # s) 1 acc =
           (case decode_base36_id (take (digit_value d) s) of
              Inl e \<Rightarrow> Inl e
            | Inr v \<Rightarrow> decode_loop (drop (digit_value d) s) 1 (acc @ [v]))"
proof -
  have "py_int 10 [d] = Inr (int (digit_value d))" using assms(2) by (rule py_int_decimal)
  then show ?thesis
    using decode_loop_head[OF assms(1), of d acc] by (simp split: sum.splits)
qed

lemma decode_base36_id_only_ValueError: "decode_base36_id s = Inl e \<Longrightarrow> e = ValueError"
  unfolding decode_base36_id_def base36decode_def by (rule py_int_only_ValueError)

section \<open>Properties of the table operations\<close>

subsection \<open>The length of a decoded path\<close>

lemma decode_loop_length:
  "decode_loop p c acc = Inr ids \<Longrightarrow> length ids \<le> length acc + (length p - c)"
proof (induction p c acc rule: decode_loop.induct)
  case (1 path cursor ids')
  note S = decode_loop.simps[of path cursor ids']
  show ?case
  proof (cases "cursor < length path")
    case False
    then show ?thesis using "1.prems" by (simp add: S)
  next
    case True
    then obtain k v where k: "py_int 10 [path ! (cursor - 1)] = Inr k"
      and v: "decode_base36_id (take (nat k) (drop cursor path)) = Inr v"
      and r: "decode_loop path (cursor + nat k + 1) (ids' @ [v]) = Inr ids"
      using "1.prems" by (simp add: S split: sum.splits)
    have "length ids \<le> length (ids' @ [v]) + (length path - (cursor + nat k + 1))"
      using "1.IH"[OF True k v r] .
    then show ?thesis using True by simp
  qed
qed

lemma decode_path_length:
  "decode_path_to_ids pth = Inr ids \<Longrightarrow> length ids \<le> length (xstr pth)"
proof (cases "pth = None \<or> pth = Some []")
  case True
  assume "decode_path_to_ids pth = Inr ids"
  then show ?thesis using True by (auto simp: decode_path_to_ids_def)
next
  case False
  assume "decode_path_to_ids pth = Inr ids"
  then have "decode_loop (the pth) 1 [] = Inr ids" using False by (simp add: decode_path_to_ids_def)
  then have "length ids \<le> length (the pth) - 1" using decode_loop_length by fastforce
  then show ?thesis using False by (auto simp: xstr_def)
qed

lemma objects_get_Inr: "objects_get st k = Inr r \<Longrightarrow> pk r = k \<and> r \<in> set st"
proof -
  assume "objects_get st k = Inr r"
  then obtain rs where "filter (\<lambda>r. pk r = k) st = r # rs"
    by (auto simp: objects_get_def split: list.splits)
  then have "r \<in> set (filter (\<lambda>r. pk r = k) st)" by simp
  then show ?thesis by simp
qed

lemma depth_nonneg: "depth self = Inr d \<Longrightarrow> 0 \<le> d"
  by (auto simp: depth_def split: if_splits sum.splits)

subsection \<open>Writing one row\<close>

lemma super_save_result: "snd (super_save st self) = Inr (self\<lparr>adding := False\<rparr>)"
  by (simp add: super_save_def Let_def)

lemma super_save_stored: "node.truncate self \<in> set (fst (super_save st self))"
  by (auto simp: super_save_def Let_def)

lemma super_save_others:
  "filter (\<lambda>r. pk r \<noteq> pk self) (fst (super_save st self)) = filter (\<lambda>r. pk r \<noteq> pk self) st"
proof -
  have "pk (node.truncate self) = pk self" by (simp add: node.truncate_def)
  then have "filter (\<lambda>r. pk r \<noteq> pk self) (map (\<lambda>r. if pk r = pk self then node.truncate self else r) xs)
        = filter (\<lambda>r. pk r \<noteq> pk self) xs" for xs
    by (induction xs) auto
  then show ?thesis by (simp add: super_save_def Let_def \<open>pk (node.truncate self) = pk self\<close>)
qed

lemma super_save_same:
  assumes "node.truncate self \<in> set st" and "distinct (map pk st)"
  shows "fst (super_save st self) = st"
proof -
  have pk: "pk (node.truncate self) = pk self" by (simp add: node.truncate_def)
  have "\<And>r. r \<in> set st \<Longrightarrow> pk r = pk self \<Longrightarrow> r = node.truncate self"
    using assms pk by (metis distinct_map inj_on_def)
  then have "map (\<lambda>r. if pk r = pk self then node.truncate self else r) st = st"
    by (simp add: map_idI)
  moreover have "\<exists>r \<in> set st. pk r = pk self" using assms(1) pk by blast
  ultimately show ?thesis by (simp add: super_save_def Let_def)
qed

section \<open>The statements of the specification\<close>

subsection \<open>The token of one identifier\<close>

lemma digits_decimal_all: "list_all (\<lambda>k. digits ! k = decimal_char k) [0..<10]"
  by code_simp

lemma digits_decimal: "k < 10 \<Longrightarrow> digits ! k = decimal_char k"
  using digits_decimal_all by (simp add: list_all_iff)

lemma b36_canonical: "0 \<le> n \<Longrightarrow> canonical_body (base36encode_loop n [])"
proof -
  assume n: "0 \<le> n"
  have "hd (base36encode_loop n []) = CHR ''0'' \<longrightarrow> base36encode_loop n [] = ''0''"
  proof (cases "n = 0")
    case True
    then show ?thesis by (simp add: b36_zero)
  next
    case False
    then have "0 < n" using n by simp
    then show ?thesis using b36_leading by simp
  qed
  then show ?thesis using n by (simp add: canonical_body_def b36_nonempty b36_chars)
qed

subsection \<open>Round trip of the path codec\<close>

text \<open>
  C1 (amended). For every list \<open>ids\<close> of integers from 0 up to, but not including,
  \<open>36 ^ 9\<close>, \<^verbatim>\<open>encode_ids_to_path\<close> returns a path and \<^verbatim>\<open>decode_path_to_ids\<close> maps that
  path back to \<open>ids\<close>. For every well-formed path \<open>q\<close> (tokens with a length digit
  from 1 to 9), \<^verbatim>\<open>decode_path_to_ids\<close> returns a list that \<^verbatim>\<open>encode_ids_to_path\<close> maps
  back to \<open>q\<close>.
\<close>

theorem path_codec_round_trip:
  "((\<forall>i \<in> set ids. 0 \<le> i \<and> i < 36 ^ 9) \<longrightarrow>
      (\<exists>p. encode_ids_to_path ids = Inr p \<and> decode_path_to_ids (Some p) = Inr ids))
   \<and> (well_formed_path q \<longrightarrow>
      (\<exists>js. decode_path_to_ids (Some q) = Inr js \<and> encode_ids_to_path js = Inr q))"
proof (intro conjI impI)
  assume valid: "\<forall>i \<in> set ids. 0 \<le> i \<and> i < 36 ^ 9"
  then obtain p where p: "encode_ids_to_path ids = Inr p"
    using encode_ids_to_path_total by blast
  then have "decode_path_to_ids (Some p) = Inr ids" using valid by (intro decode_encode)
  then show "\<exists>p. encode_ids_to_path ids = Inr p \<and> decode_path_to_ids (Some p) = Inr ids"
    using p by blast
next
  assume "well_formed_path q"
  then show "\<exists>js. decode_path_to_ids (Some q) = Inr js \<and> encode_ids_to_path js = Inr q"
    by (rule encode_decode)
qed

text \<open>The round trip at the identifiers 1, 2 and 37 and at their path.\<close>

theorem path_codec_round_trip_witness:
  "list_all (\<lambda>i. 0 \<le> i \<and> i < 36 ^ 9) [1, 2, 37 :: int]
   \<and> well_formed_path ''1112211''
   \<and> (\<exists>p. encode_ids_to_path [1, 2, 37] = Inr p \<and> decode_path_to_ids (Some p) = Inr [1, 2, 37])
   \<and> (\<exists>js. decode_path_to_ids (Some ''1112211'') = Inr js
            \<and> encode_ids_to_path js = Inr ''1112211'')"
proof -
  have h1: "\<forall>i \<in> set [1, 2, 37 :: int]. 0 \<le> i \<and> i < 36 ^ 9" by simp
  have h2: "well_formed_path ''1112211''" by code_simp
  have h3: "list_all (\<lambda>i. 0 \<le> i \<and> i < 36 ^ 9) [1, 2, 37 :: int]" by simp
  show ?thesis
    using path_codec_round_trip[of "[1, 2, 37]" "''1112211''"] h1 h2 h3 by blast
qed

text \<open>
  The identifier \<open>36 ^ 9 = 101559956668416\<close> has a numeral of ten characters, so
  \<^verbatim>\<open>str(len(num))\<close> is the two characters \<^verbatim>\<open>10\<close>; the decoder reads one length
  character per token and raises on the encoded path.
\<close>

theorem path_codec_round_trip_counterexample:
  "(0::int) \<le> 101559956668416
   \<and> encode_ids_to_path [101559956668416] = Inr ''101000000000''
   \<and> decode_path_to_ids (Some ''101000000000'') = Inl ValueError"
  by code_simp

subsection \<open>The format of a token\<close>

text \<open>
  C5 (amended). For every integer \<open>n\<close> that \<^verbatim>\<open>base36encode\<close> accepts (the non-negative
  ones) and whose base-36 numeral \<open>body\<close> is at most 9 characters long,
  \<^verbatim>\<open>encode_base36_id\<close> returns \<open>body\<close> prefixed by the single digit equal to its
  length; \<open>body\<close> is the base-36 numeral of \<open>n\<close>: digits \<^verbatim>\<open>0-9A-Z\<close>, most significant
  first, no leading zeros, \<^verbatim>\<open>0\<close> for zero. Every \<open>n\<close> from 0 below \<open>36 ^ 9\<close> has such a
  numeral, and \<^verbatim>\<open>encode_base36_id(0)\<close> is \<^verbatim>\<open>10\<close>.
\<close>

theorem encode_base36_id_token:
  "(base36encode n = Inr body \<and> length body \<le> 9 \<longrightarrow>
      encode_base36_id n = Inr (digits ! length body # body)
      \<and> canonical_body body \<and> digits_value 36 body = n)
   \<and> (0 \<le> n \<and> n < 36 ^ 9 \<longrightarrow> (\<exists>b. base36encode n = Inr b \<and> length b \<le> 9))
   \<and> encode_base36_id 0 = Inr ''10''"
proof (intro conjI impI)
  assume a: "base36encode n = Inr body \<and> length body \<le> 9"
  then have n: "0 \<le> n" and body: "body = base36encode_loop n []"
    by (auto simp: base36encode_def split: if_splits)
  have len: "length (base36encode_loop n []) \<le> 9" using a body by simp
  have "encode_base36_id n = Inr (decimal_char (length body) # body)"
    unfolding body using n len by (rule encode_base36_id_short)
  then show "encode_base36_id n = Inr (digits ! length body # body)"
    using a by (simp add: digits_decimal)
  show "canonical_body body" unfolding body using n by (rule b36_canonical)
  show "digits_value 36 body = n" unfolding body using n by (rule b36_value)
next
  assume "0 \<le> n \<and> n < 36 ^ 9"
  then show "\<exists>b. base36encode n = Inr b \<and> length b \<le> 9"
    by (simp add: base36encode_def b36_length9)
next
  show "encode_base36_id 0 = Inr ''10''" by code_simp
qed

text \<open>The token of 37 is \<^verbatim>\<open>211\<close>.\<close>

theorem encode_base36_id_token_witness:
  "base36encode 37 = Inr ''11'' \<and> length ''11'' \<le> 9 \<and> (0::int) \<le> 37 \<and> (37::int) < 36 ^ 9
   \<and> encode_base36_id 37 = Inr ''211'' \<and> canonical_body ''11'' \<and> digits_value 36 ''11'' = 37"
proof -
  have h: "base36encode 37 = Inr ''11'' \<and> length ''11'' \<le> 9" by code_simp
  have d: "digits ! length ''11'' = CHR ''2''" by code_simp
  show ?thesis
    using encode_base36_id_token[of 37 "''11''"] h d by simp
qed

text \<open>
  At \<open>36 ^ 9\<close> the numeral has ten characters, within the 35 that the specification
  allows, and the prefix is the decimal \<^verbatim>\<open>10\<close>, not the base-36 digit \<^verbatim>\<open>A\<close>.
\<close>

theorem encode_base36_id_token_counterexample:
  "base36encode 101559956668416 = Inr ''1000000000''
   \<and> length ''1000000000'' \<le> 35
   \<and> encode_base36_id 101559956668416 = Inr ''101000000000''
   \<and> encode_base36_id 101559956668416 \<noteq> Inr (digits ! length ''1000000000'' # ''1000000000'')"
  by code_simp

subsection \<open>Decoding paths that are not well formed\<close>

text \<open>
  C6 (amended). \<^verbatim>\<open>decode_path_to_ids\<close> maps an absent or empty path to the empty list.
  After the tokens of a list \<open>ids\<close> of identifiers below \<open>36 ^ 9\<close>, a single remaining
  character is ignored and \<open>ids\<close> is returned; where more than one character remains,
  the call raises \<^verbatim>\<open>ValueError\<close> when the length character is not a decimal digit, and
  when the body (the declared number of characters, or the remaining ones when fewer
  remain) is rejected by \<^verbatim>\<open>int(body, 36)\<close>, as it is when it holds a character that is
  neither a letter, a digit, an underscore, a sign nor white space; a declared length
  that overruns the string is not detected: the remaining characters are decoded as the
  body and the list is returned.
\<close>

theorem decode_path_to_ids_malformed:
  "decode_path_to_ids None = Inr [] \<and> decode_path_to_ids (Some []) = Inr []
   \<and> ((\<forall>i \<in> set ids. 0 \<le> i \<and> i < 36 ^ 9) \<and> encode_ids_to_path ids = Inr p \<longrightarrow>
        decode_path_to_ids (Some (p @ [c])) = Inr ids
        \<and> (s \<noteq> [] \<and> 10 \<le> digit_value d \<longrightarrow>
             decode_path_to_ids (Some (p @ d # s)) = Inl ValueError)
        \<and> (s \<noteq> [] \<and> digit_value d < 10
             \<and> (\<exists>e. decode_base36_id (take (digit_value d) s) = Inl e) \<longrightarrow>
             decode_path_to_ids (Some (p @ d # s)) = Inl ValueError)
        \<and> (s \<noteq> [] \<and> digit_value d < 10
             \<and> (\<exists>x \<in> set (take (digit_value d) s). \<not> int_literal_char x) \<longrightarrow>
             decode_path_to_ids (Some (p @ d # s)) = Inl ValueError)
        \<and> (s \<noteq> [] \<and> digit_value d < 10 \<and> length s < digit_value d
             \<and> decode_base36_id s = Inr v \<longrightarrow>
             decode_path_to_ids (Some (p @ d # s)) = Inr (ids @ [v])))"
proof (intro conjI impI)
  show "decode_path_to_ids None = Inr []" by (simp add: decode_path_to_ids_def)
  show "decode_path_to_ids (Some []) = Inr []" by (simp add: decode_path_to_ids_def)
next
  assume "(\<forall>i \<in> set ids. 0 \<le> i \<and> i < 36 ^ 9) \<and> encode_ids_to_path ids = Inr p"
  then have "decode_path_to_ids (Some (p @ [c])) = decode_loop [c] 1 ids"
    by (intro decode_after_encoded) simp_all
  then show "decode_path_to_ids (Some (p @ [c])) = Inr ids"
    using decode_loop_single[of c ids] by simp
next
  assume a: "(\<forall>i \<in> set ids. 0 \<le> i \<and> i < 36 ^ 9) \<and> encode_ids_to_path ids = Inr p"
    and b: "s \<noteq> [] \<and> 10 \<le> digit_value d"
  from a have "decode_path_to_ids (Some (p @ d # s)) = decode_loop (d # s) 1 ids"
    by (intro decode_after_encoded) simp_all
  then show "decode_path_to_ids (Some (p @ d # s)) = Inl ValueError"
    using b decode_loop_bad_length[of s d ids] by simp
next
  assume a: "(\<forall>i \<in> set ids. 0 \<le> i \<and> i < 36 ^ 9) \<and> encode_ids_to_path ids = Inr p"
    and b: "s \<noteq> [] \<and> digit_value d < 10
             \<and> (\<exists>e. decode_base36_id (take (digit_value d) s) = Inl e)"
  from a have "decode_path_to_ids (Some (p @ d # s)) = decode_loop (d # s) 1 ids"
    by (intro decode_after_encoded) simp_all
  moreover from b have "decode_base36_id (take (digit_value d) s) = Inl ValueError"
    using decode_base36_id_only_ValueError by blast
  ultimately show "decode_path_to_ids (Some (p @ d # s)) = Inl ValueError"
    using b decode_loop_body[of s d ids] by simp
next
  assume a: "(\<forall>i \<in> set ids. 0 \<le> i \<and> i < 36 ^ 9) \<and> encode_ids_to_path ids = Inr p"
    and b: "s \<noteq> [] \<and> digit_value d < 10
             \<and> (\<exists>x \<in> set (take (digit_value d) s). \<not> int_literal_char x)"
  from a have "decode_path_to_ids (Some (p @ d # s)) = decode_loop (d # s) 1 ids"
    by (intro decode_after_encoded) simp_all
  moreover from b have "decode_base36_id (take (digit_value d) s) = Inl ValueError"
    unfolding decode_base36_id_def base36decode_def using py_int_bad_char by fastforce
  ultimately show "decode_path_to_ids (Some (p @ d # s)) = Inl ValueError"
    using b decode_loop_body[of s d ids] by simp
next
  assume a: "(\<forall>i \<in> set ids. 0 \<le> i \<and> i < 36 ^ 9) \<and> encode_ids_to_path ids = Inr p"
    and b: "s \<noteq> [] \<and> digit_value d < 10 \<and> length s < digit_value d
             \<and> decode_base36_id s = Inr v"
  from a have "decode_path_to_ids (Some (p @ d # s)) = decode_loop (d # s) 1 ids"
    by (intro decode_after_encoded) simp_all
  then show "decode_path_to_ids (Some (p @ d # s)) = Inr (ids @ [v])"
    using b decode_loop_body[of s d ids] decode_loop_Nil[of "ids @ [v]"] by simp
qed

text \<open>The four cases after the token of 1: paths \<^verbatim>\<open>112\<close>, \<^verbatim>\<open>11x1\<close>, \<^verbatim>\<open>112A!\<close> and \<^verbatim>\<open>113AB\<close>.\<close>

theorem decode_path_to_ids_malformed_witness:
  "list_all (\<lambda>i. 0 \<le> i \<and> i < 36 ^ 9) [1 :: int] \<and> encode_ids_to_path [1] = Inr ''11''
   \<and> decode_path_to_ids (Some ''112'') = Inr [1]
   \<and> 10 \<le> digit_value CHR ''x'' \<and> decode_path_to_ids (Some ''11x1'') = Inl ValueError
   \<and> digit_value CHR ''2'' < 10 \<and> decode_base36_id (take 2 ''A!'') = Inl ValueError
   \<and> \<not> int_literal_char CHR ''!''
   \<and> decode_path_to_ids (Some ''112A!'') = Inl ValueError
   \<and> digit_value CHR ''3'' < 10 \<and> length ''AB'' < digit_value CHR ''3''
   \<and> decode_base36_id ''AB'' = Inr 371
   \<and> decode_path_to_ids (Some ''113AB'') = Inr [1, 371]"
proof -
  have h: "(\<forall>i \<in> set [1 :: int]. 0 \<le> i \<and> i < 36 ^ 9) \<and> encode_ids_to_path [1] = Inr ''11''"
    by code_simp
  have h': "list_all (\<lambda>i. 0 \<le> i \<and> i < 36 ^ 9) [1 :: int]" by simp
  have x: "10 \<le> digit_value CHR ''x''" by code_simp
  have two: "digit_value CHR ''2'' = 2" and three: "digit_value CHR ''3'' = 3" by code_simp+
  have bad: "decode_base36_id (take 2 ''A!'') = Inl ValueError" by code_simp
  have bang: "\<not> int_literal_char CHR ''!''" by code_simp
  have ab: "decode_base36_id ''AB'' = Inr 371" by code_simp
  note t = decode_path_to_ids_malformed[of "[1]" "''11''"]
  have 1: "decode_path_to_ids (Some ''112'') = Inr [1]"
    using t[of "CHR ''2''"] h by simp
  have 2: "decode_path_to_ids (Some ''11x1'') = Inl ValueError"
    using t[of _ "''1''" "CHR ''x''"] h x by simp
  have 3: "decode_path_to_ids (Some ''112A!'') = Inl ValueError"
    using t[of _ "''A!''" "CHR ''2''"] h two bad by simp
  have 4: "decode_path_to_ids (Some ''113AB'') = Inr [1, 371]"
    using t[of _ "''AB''" "CHR ''3''" 371] h three ab by simp
  show ?thesis using h h' x two three bad bang ab 1 2 3 4 by simp
qed

text \<open>
  A length digit without a body and a length that overruns the string both return a list,
  and so do bodies with characters outside \<^verbatim>\<open>0-9A-Z\<close> that \<^verbatim>\<open>int\<close> accepts: small
  letters and a sign.
\<close>

theorem decode_path_to_ids_malformed_counterexample:
  "decode_path_to_ids (Some ''1'') = Inr []
   \<and> decode_path_to_ids (Some ''3AB'') = Inr [371]
   \<and> decode_path_to_ids (Some ''2ab'') = Inr [371]
   \<and> decode_path_to_ids (Some ''2-1'') = Inr [- 1]"
  by code_simp

subsection \<open>Creating a record\<close>

text \<open>
  C4. On the first save of a record (\<^verbatim>\<open>_state.adding\<close>): without a parent (no related
  object and no \<open>parent_id\<close>) the path is set to \<^verbatim>\<open>None\<close> and the depth of the record is
  0; with a parent \<open>p\<close> the path is set to \<^verbatim>\<open>xstr(p.path)\<close> followed by the token of
  \<^verbatim>\<open>p.id\<close>, which exists for every non-negative key; the saved record is the row
  written to the table. Where nothing is set, an exception is raised and the table is
  left as it is: \<^verbatim>\<open>DoesNotExist\<close> for a \<open>parent_id\<close> without a row, and the
  \<^verbatim>\<open>ValueError\<close> of \<^verbatim>\<open>encode_base36_id\<close> for a parent with a negative key.
\<close>

theorem save_on_create:
  "adding self \<longrightarrow>
     (parent self = None \<and> parent_id self = None \<longrightarrow>
        snd (save st self) = Inr (self\<lparr>path := None, adding := False\<rparr>)
        \<and> depth (self\<lparr>path := None, adding := False\<rparr>) = Inr 0)
     \<and> (parent self = None \<and> parent_id self \<noteq> None \<longrightarrow>
          save st self = (st, Inl DoesNotExist))
     \<and> (\<forall>p tok. parent self = Some p \<and> encode_base36_id (pk p) = Inr tok \<longrightarrow>
          snd (save st self) = Inr (self\<lparr>path := Some (xstr (path p) @ tok), adding := False\<rparr>))
     \<and> (\<forall>p e. parent self = Some p \<and> encode_base36_id (pk p) = Inl e \<longrightarrow>
          save st self = (st, Inl e))
     \<and> (\<forall>p. parent self = Some p \<and> 0 \<le> pk p \<longrightarrow> (\<exists>tok. encode_base36_id (pk p) = Inr tok))
     \<and> (\<forall>self'. snd (save st self) = Inr self' \<longrightarrow> node.truncate self' \<in> set (fst (save st self)))"
proof (intro impI conjI allI)
  assume "adding self" and "parent self = None \<and> parent_id self = None"
  then show "snd (save st self) = Inr (self\<lparr>path := None, adding := False\<rparr>)"
    by (simp add: save_def super_save_result)
  show "depth (self\<lparr>path := None, adding := False\<rparr>) = Inr 0"
    by (simp add: depth_def truthy_str_def)
next
  assume "adding self" and "parent self = None \<and> parent_id self \<noteq> None"
  then show "save st self = (st, Inl DoesNotExist)" by (simp add: save_def)
next
  fix p tok
  assume "adding self" and "parent self = Some p \<and> encode_base36_id (pk p) = Inr tok"
  then show "snd (save st self) = Inr (self\<lparr>path := Some (xstr (path p) @ tok), adding := False\<rparr>)"
    by (auto simp: save_def super_save_result truthy_str_def xstr_def split: option.splits)
next
  fix p e
  assume "adding self" and "parent self = Some p \<and> encode_base36_id (pk p) = Inl e"
  then show "save st self = (st, Inl e)" by (simp add: save_def)
next
  fix p
  assume "parent self = Some p \<and> 0 \<le> pk p"
  then show "\<exists>tok. encode_base36_id (pk p) = Inr tok" by (simp add: encode_base36_id_nonneg)
next
  fix self'
  assume a: "adding self" and b: "snd (save st self) = Inr self'"
  show "node.truncate self' \<in> set (fst (save st self))"
  proof (cases "parent self")
    case None
    show ?thesis
    proof (cases "parent_id self = None")
      case True
      then have s: "save st self = super_save st (self\<lparr>path := None\<rparr>)"
        using a None by (simp add: save_def)
      then have "self' = self\<lparr>path := None, adding := False\<rparr>" using b by (simp add: super_save_result)
      then have "node.truncate self' = node.truncate (self\<lparr>path := None\<rparr>)" by (simp add: node.truncate_def)
      then show ?thesis unfolding s using super_save_stored by metis
    next
      case False
      then show ?thesis using a b None by (simp add: save_def)
    qed
  next
    case (Some p)
    show ?thesis
    proof (cases "encode_base36_id (pk p)")
      case (Inl e)
      then show ?thesis using a b Some by (cases "truthy_str (path p)") (simp_all add: save_def)
    next
      case (Inr tok)
      define q where "q = (if truthy_str (path p) then Some (the (path p) @ tok) else Some tok)"
      have s: "save st self = super_save st (self\<lparr>path := q\<rparr>)"
        using a Some Inr by (cases "truthy_str (path p)") (simp_all add: save_def q_def)
      then have "self' = self\<lparr>path := q, adding := False\<rparr>" using b by (simp add: super_save_result)
      then have "node.truncate self' = node.truncate (self\<lparr>path := q\<rparr>)" by (simp add: node.truncate_def)
      then show ?thesis unfolding s using super_save_stored by metis
    qed
  qed
qed

text \<open>
  A root created in the empty table; a record created with the key 99 of no row as
  \<open>parent_id\<close>; a child created under record 2, whose path is \<^verbatim>\<open>11\<close>; and a child
  created under a parent with the key -1.
\<close>

theorem save_on_create_witness:
  "adding \<lparr>pk = 1, parent_id = None, path = None, parent = None,
            original_parent_id = None, adding = True\<rparr>
   \<and> snd (save [] \<lparr>pk = 1, parent_id = None, path = None, parent = None,
                     original_parent_id = None, adding = True\<rparr>)
       = Inr \<lparr>pk = 1, parent_id = None, path = None, parent = None,
              original_parent_id = None, adding = False\<rparr>
   \<and> depth \<lparr>pk = 1, parent_id = None, path = None, parent = None,
             original_parent_id = None, adding = False\<rparr> = Inr 0
   \<and> save [\<lparr>pk = 1, parent_id = None, path = None\<rparr>]
           \<lparr>pk = 2, parent_id = Some 99, path = None, parent = None,
              original_parent_id = Some 99, adding = True\<rparr>
       = ([\<lparr>pk = 1, parent_id = None, path = None\<rparr>], Inl DoesNotExist)
   \<and> encode_base36_id 2 = Inr ''12''
   \<and> save [\<lparr>pk = 1, parent_id = None, path = None\<rparr>,
            \<lparr>pk = 2, parent_id = Some 1, path = Some ''11''\<rparr>]
           \<lparr>pk = 3, parent_id = Some 2, path = None,
              parent = Some \<lparr>pk = 2, parent_id = Some 1, path = Some ''11''\<rparr>,
              original_parent_id = Some 2, adding = True\<rparr>
       = ([\<lparr>pk = 1, parent_id = None, path = None\<rparr>,
           \<lparr>pk = 2, parent_id = Some 1, path = Some ''11''\<rparr>,
           \<lparr>pk = 3, parent_id = Some 2, path = Some ''1112''\<rparr>],
          Inr \<lparr>pk = 3, parent_id = Some 2, path = Some ''1112'',
                 parent = Some \<lparr>pk = 2, parent_id = Some 1, path = Some ''11''\<rparr>,
                 original_parent_id = Some 2, adding = False\<rparr>)
   \<and> encode_base36_id (- 1) = Inl ValueError
   \<and> save [] \<lparr>pk = 3, parent_id = Some (- 1), path = None,
                 parent = Some \<lparr>pk = - 1, parent_id = None, path = None\<rparr>,
                 original_parent_id = Some (- 1), adding = True\<rparr>
       = ([], Inl ValueError)"
proof -
  let ?root = "\<lparr>pk = 1, parent_id = None, path = None, parent = None,
            original_parent_id = None, adding = True\<rparr>"
  let ?st = "[\<lparr>pk = 1, parent_id = None, path = None\<rparr>,
            \<lparr>pk = 2, parent_id = Some 1, path = Some ''11''\<rparr>]"
  let ?p = "\<lparr>pk = 2, parent_id = Some 1, path = Some ''11''\<rparr>"
  let ?self = "\<lparr>pk = 3, parent_id = Some 2, path = None, parent = Some ?p,
              original_parent_id = Some 2, adding = True\<rparr>"
  let ?lost = "\<lparr>pk = 2, parent_id = Some 99, path = None, parent = None,
              original_parent_id = Some 99, adding = True\<rparr>"
  let ?q = "\<lparr>pk = - 1, parent_id = None, path = None\<rparr>"
  let ?neg = "\<lparr>pk = 3, parent_id = Some (- 1), path = None, parent = Some ?q,
                 original_parent_id = Some (- 1), adding = True\<rparr>"
  have tok: "encode_base36_id 2 = Inr ''12''" by code_simp
  have err: "encode_base36_id (- 1) = Inl ValueError" by code_simp
  have 1: "snd (save [] ?root) = Inr (?root\<lparr>path := None, adding := False\<rparr>)
           \<and> depth (?root\<lparr>path := None, adding := False\<rparr>) = Inr 0"
    using save_on_create[of ?root "[]"] by simp
  have 0: "save [\<lparr>pk = 1, parent_id = None, path = None\<rparr>] ?lost
             = ([\<lparr>pk = 1, parent_id = None, path = None\<rparr>], Inl DoesNotExist)"
    using save_on_create[of ?lost "[\<lparr>pk = 1, parent_id = None, path = None\<rparr>]"] by simp
  have "parent ?self = Some ?p \<and> encode_base36_id (pk ?p) = Inr ''12''" using tok by simp
  then have 2: "snd (save ?st ?self) = Inr (?self\<lparr>path := Some (xstr (path ?p) @ ''12''), adding := False\<rparr>)"
    using save_on_create[of ?self ?st] by simp
  have 3: "fst (save ?st ?self) = ?st @ [\<lparr>pk = 3, parent_id = Some 2, path = Some ''1112''\<rparr>]"
    by code_simp
  have "parent ?neg = Some ?q \<and> encode_base36_id (pk ?q) = Inl ValueError" using err by simp
  then have 4: "save [] ?neg = ([], Inl ValueError)"
    using save_on_create[of ?neg "[]"] by simp
  show ?thesis using 0 1 2 3 4 tok err by (simp add: prod_eq_iff xstr_def)
qed

subsection \<open>Saving with the parent unchanged\<close>

text \<open>
  C9. Saving an existing record whose \<^verbatim>\<open>parent_id\<close> equals \<^verbatim>\<open>_original_parent_id\<close>
  recomputes nothing: the instance comes back as it was, with its path; every row with
  another key, so every descendant, is left as it is; the row of the record is written
  from the instance; and when that row is the one the table already holds, the table is
  unchanged.
\<close>

theorem save_same_parent:
  "\<not> adding self \<and> original_parent_id self = parent_id self \<longrightarrow>
     snd (save st self) = Inr self
     \<and> filter (\<lambda>r. pk r \<noteq> pk self) (fst (save st self)) = filter (\<lambda>r. pk r \<noteq> pk self) st
     \<and> node.truncate self \<in> set (fst (save st self))
     \<and> (node.truncate self \<in> set st \<and> distinct (map pk st) \<longrightarrow> fst (save st self) = st)"
proof (intro impI conjI)
  assume a: "\<not> adding self \<and> original_parent_id self = parent_id self"
  then have s: "save st self = super_save st self" by (simp add: save_def)
  have "self\<lparr>adding := False\<rparr> = self" using a by simp
  then show "snd (save st self) = Inr self" by (simp add: s super_save_result)
  show "filter (\<lambda>r. pk r \<noteq> pk self) (fst (save st self)) = filter (\<lambda>r. pk r \<noteq> pk self) st"
    unfolding s by (rule super_save_others)
  show "node.truncate self \<in> set (fst (save st self))" unfolding s by (rule super_save_stored)
  assume "node.truncate self \<in> set st \<and> distinct (map pk st)"
  then show "fst (save st self) = st" unfolding s by (intro super_save_same) simp_all
qed

text \<open>
  Record 2 saved again under its parent 1, with its child 3 in the table.
\<close>

theorem save_same_parent_witness:
  "save [\<lparr>pk = 1, parent_id = None, path = None\<rparr>,
         \<lparr>pk = 2, parent_id = Some 1, path = Some ''11''\<rparr>,
         \<lparr>pk = 3, parent_id = Some 2, path = Some ''1112''\<rparr>]
        \<lparr>pk = 2, parent_id = Some 1, path = Some ''11'',
           parent = Some \<lparr>pk = 1, parent_id = None, path = None\<rparr>,
           original_parent_id = Some 1, adding = False\<rparr>
   = ([\<lparr>pk = 1, parent_id = None, path = None\<rparr>,
       \<lparr>pk = 2, parent_id = Some 1, path = Some ''11''\<rparr>,
       \<lparr>pk = 3, parent_id = Some 2, path = Some ''1112''\<rparr>],
      Inr \<lparr>pk = 2, parent_id = Some 1, path = Some ''11'',
             parent = Some \<lparr>pk = 1, parent_id = None, path = None\<rparr>,
             original_parent_id = Some 1, adding = False\<rparr>)"
proof -
  let ?st = "[\<lparr>pk = 1, parent_id = None, path = None\<rparr>,
         \<lparr>pk = 2, parent_id = Some 1, path = Some ''11''\<rparr>,
         \<lparr>pk = 3, parent_id = Some 2, path = Some ''1112''\<rparr>]"
  let ?self = "\<lparr>pk = 2, parent_id = Some 1, path = Some ''11'',
           parent = Some \<lparr>pk = 1, parent_id = None, path = None\<rparr>,
           original_parent_id = Some 1, adding = False\<rparr>"
  have h: "\<not> adding ?self \<and> original_parent_id ?self = parent_id ?self" by simp
  have l: "node.truncate ?self \<in> set ?st \<and> distinct (map pk ?st)"
    by (simp add: node.truncate_def)
  from save_same_parent[of ?self ?st] h l
  have "snd (save ?st ?self) = Inr ?self" and "fst (save ?st ?self) = ?st" by blast+
  then show ?thesis by (metis prod.collapse)
qed

subsection \<open>Making a record a root\<close>

text \<open>
  C10. When an existing record is saved with its parent changed to \<^verbatim>\<open>None\<close>,
  \<^verbatim>\<open>save\<close> never raises \<^verbatim>\<open>ValidationError\<close> (the cycle check is in the branch of a
  present parent only): for a non-negative key it returns the instance with the path
  \<^verbatim>\<open>None\<close>, and whenever it returns an instance the path of that instance is
  \<^verbatim>\<open>None\<close>.
\<close>

theorem save_reparent_to_root:
  "\<not> adding self \<and> parent_id self = None \<and> original_parent_id self \<noteq> None \<longrightarrow>
     snd (save st self) \<noteq> Inl ValidationError
     \<and> (0 \<le> pk self \<longrightarrow> snd (save st self) = Inr (self\<lparr>path := None\<rparr>))
     \<and> (pk self < 0 \<longrightarrow> save st self = (st, Inl ValueError))
     \<and> (\<forall>self'. snd (save st self) = Inr self' \<longrightarrow> path self' = None)"
proof (intro impI)
  assume a: "\<not> adding self \<and> parent_id self = None \<and> original_parent_id self \<noteq> None"
  have eq: "self\<lparr>path := None, adding := False\<rparr> = self\<lparr>path := None\<rparr>" using a by simp
  show "snd (save st self) \<noteq> Inl ValidationError
     \<and> (0 \<le> pk self \<longrightarrow> snd (save st self) = Inr (self\<lparr>path := None\<rparr>))
     \<and> (pk self < 0 \<longrightarrow> save st self = (st, Inl ValueError))
     \<and> (\<forall>self'. snd (save st self) = Inr self' \<longrightarrow> path self' = None)"
  proof (cases "0 \<le> pk self")
    case True
    then have "snd (save st self) = Inr (self\<lparr>path := None\<rparr>)"
      using a eq by (simp add: save_def encode_base36_id_nonneg truthy_int_def super_save_result Let_def)
    then show ?thesis using True by auto
  next
    case False
    then have "save st self = (st, Inl ValueError)"
      using a by (simp add: save_def encode_base36_id_negative)
    then show ?thesis using False by simp
  qed
qed

text \<open>
  Record 2, child of 1, made a root.
\<close>

theorem save_reparent_to_root_witness:
  "save [\<lparr>pk = 1, parent_id = None, path = None\<rparr>,
         \<lparr>pk = 2, parent_id = Some 1, path = Some ''11''\<rparr>]
        \<lparr>pk = 2, parent_id = None, path = Some ''11'', parent = None,
           original_parent_id = Some 1, adding = False\<rparr>
   = ([\<lparr>pk = 1, parent_id = None, path = None\<rparr>,
       \<lparr>pk = 2, parent_id = None, path = None\<rparr>],
      Inr \<lparr>pk = 2, parent_id = None, path = None, parent = None,
             original_parent_id = Some 1, adding = False\<rparr>)
   \<and> save [] \<lparr>pk = - 1, parent_id = None, path = Some ''11'', parent = None,
                 original_parent_id = Some 1, adding = False\<rparr>
       = ([], Inl ValueError)"
proof -
  have neg: "save [] \<lparr>pk = - 1, parent_id = None, path = Some ''11'', parent = None,
                 original_parent_id = Some 1, adding = False\<rparr> = ([], Inl ValueError)"
    using save_reparent_to_root[of "\<lparr>pk = - 1, parent_id = None, path = Some ''11'',
                 parent = None, original_parent_id = Some 1, adding = False\<rparr>" "[]"]
    by simp
  let ?st = "[\<lparr>pk = 1, parent_id = None, path = None\<rparr>,
         \<lparr>pk = 2, parent_id = Some 1, path = Some ''11''\<rparr>]"
  let ?self = "\<lparr>pk = 2, parent_id = None, path = Some ''11'', parent = None,
           original_parent_id = Some 1, adding = False\<rparr>"
  have h: "\<not> adding ?self \<and> parent_id ?self = None \<and> original_parent_id ?self \<noteq> None"
    by simp
  have "snd (save ?st ?self) = Inr (?self\<lparr>path := None\<rparr>)"
    using save_reparent_to_root[of ?self ?st] h by simp
  moreover have "fst (save ?st ?self) = [\<lparr>pk = 1, parent_id = None, path = None\<rparr>,
       \<lparr>pk = 2, parent_id = None, path = None\<rparr>]"
    by code_simp
  ultimately show ?thesis using neg by (simp add: prod_eq_iff)
qed

subsection \<open>Rejecting a parent from the own subtree\<close>

text \<open>
  C3 (amended). Let an existing record with a non-negative key be saved with a
  \<open>parent_id\<close> that differs from the \<^verbatim>\<open>_original_parent_id\<close> which \<^verbatim>\<open>__init__\<close> recorded
  for the instance, the new parent \<open>p\<close> being the record itself or one of its descendants
  (the key of the record occurs in the path of \<open>p\<close>), where the key of \<open>p\<close> is positive
  and below \<open>36 ^ 9\<close> and the path of \<open>p\<close> is the encoding of identifiers below \<open>36 ^ 9\<close>.
  Then \<^verbatim>\<open>save\<close> raises \<^verbatim>\<open>ValidationError\<close> and the table is returned unchanged: no
  path of the record or of a descendant is rewritten.
\<close>

theorem save_rejects_cyclic_parent:
  assumes "\<not> adding self" and "original_parent_id self \<noteq> parent_id self"
    and "parent self = Some p" and "parent_id self = Some (pk p)" and "pk p \<noteq> 0"
    and "0 \<le> pk self" and "0 \<le> pk p" and "pk p < 36 ^ 9"
    and "\<forall>i \<in> set ids. 0 \<le> i \<and> i < 36 ^ 9" and "encode_ids_to_path ids = Inr (xstr (path p))"
    and "pk self \<in> set ids \<or> pk self = pk p"
  shows "save st self = (st, Inl ValidationError)"
proof -
  obtain b36str where b: "encode_base36_id (pk self) = Inr b36str"
    using assms(6) by (simp add: encode_base36_id_nonneg)
  obtain tok where tok: "encode_base36_id (pk p) = Inr tok"
    using assms(7) by (simp add: encode_base36_id_nonneg)
  have "encode_ids_to_path (ids @ [pk p]) = Inr (xstr (path p) @ tok)"
    using assms(10) tok by (simp add: encode_ids_to_path_snoc)
  moreover have "\<forall>i \<in> set (ids @ [pk p]). 0 \<le> i \<and> i < 36 ^ 9" using assms(7,8,9) by simp
  ultimately have dec: "decode_path_to_ids (Some (xstr (path p) @ tok)) = Inr (ids @ [pk p])"
    by (intro decode_encode)
  have "pk self \<in> set (ids @ [pk p])" using assms(11) by auto
  then show ?thesis
    using assms(1-5) b tok dec
    by (simp add: save_def Let_def truthy_int_def)
qed

text \<open>
  Record 2 (child of 1, parent of 3) re-parented to its child 3.
\<close>

theorem save_rejects_cyclic_parent_witness:
  "encode_ids_to_path [1, 2] = Inr ''1112''
   \<and> save [\<lparr>pk = 1, parent_id = None, path = None\<rparr>,
           \<lparr>pk = 2, parent_id = Some 1, path = Some ''11''\<rparr>,
           \<lparr>pk = 3, parent_id = Some 2, path = Some ''1112''\<rparr>]
          \<lparr>pk = 2, parent_id = Some 3, path = Some ''11'',
             parent = Some \<lparr>pk = 3, parent_id = Some 2, path = Some ''1112''\<rparr>,
             original_parent_id = Some 1, adding = False\<rparr>
       = ([\<lparr>pk = 1, parent_id = None, path = None\<rparr>,
           \<lparr>pk = 2, parent_id = Some 1, path = Some ''11''\<rparr>,
           \<lparr>pk = 3, parent_id = Some 2, path = Some ''1112''\<rparr>],
          Inl ValidationError)"
proof -
  let ?p = "\<lparr>pk = 3, parent_id = Some 2, path = Some ''1112''\<rparr>"
  let ?self = "\<lparr>pk = 2, parent_id = Some 3, path = Some ''11'', parent = Some ?p,
                 original_parent_id = Some 1, adding = False\<rparr>"
  have enc: "encode_ids_to_path [1, 2] = Inr ''1112''" by code_simp
  have "save st ?self = (st, Inl ValidationError)" for st
  proof (rule save_rejects_cyclic_parent[where p = ?p and ids = "[1, 2]"])
    show "encode_ids_to_path [1, 2] = Inr (xstr (path ?p))" using enc by (simp add: xstr_def)
  qed simp_all
  then show ?thesis using enc by simp
qed

text \<open>
  A parent with the key 0 is false in \<^verbatim>\<open>if self.parent_id:\<close>, so record 0 re-parented
  to itself is saved with itself as parent and no exception. A key of ten base-36 digits
  is not recovered from the new path, so the record with the key \<^verbatim>\<open>1Z1Z1Z1Z1Z\<close> in
  base 36 re-parented to itself is saved as well. And \<^verbatim>\<open>_original_parent_id\<close> is the
  \<open>parent_id\<close> of the time the instance was created: record 2, created as a child of 1
  and since made a root, with record 1 since moved under it (path \<^verbatim>\<open>12\<close>), is saved
  under its descendant 1 through the same instance with no exception, because the new
  \<open>parent_id\<close> equals the recorded one.
\<close>

theorem save_rejects_cyclic_parent_counterexample:
  "save [\<lparr>pk = 0, parent_id = None, path = None\<rparr>]
        \<lparr>pk = 0, parent_id = Some 0, path = None,
           parent = Some \<lparr>pk = 0, parent_id = None, path = None\<rparr>,
           original_parent_id = None, adding = False\<rparr>
   = ([\<lparr>pk = 0, parent_id = Some 0, path = None\<rparr>],
      Inr \<lparr>pk = 0, parent_id = Some 0, path = None,
             parent = Some \<lparr>pk = 0, parent_id = None, path = None\<rparr>,
             original_parent_id = None, adding = False\<rparr>)
   \<and> save [\<lparr>pk = 200453474320055, parent_id = None, path = None\<rparr>]
          \<lparr>pk = 200453474320055, parent_id = Some 200453474320055, path = None,
             parent = Some \<lparr>pk = 200453474320055, parent_id = None, path = None\<rparr>,
             original_parent_id = None, adding = False\<rparr>
       = ([\<lparr>pk = 200453474320055, parent_id = Some 200453474320055,
             path = Some ''101Z1Z1Z1Z1Z''\<rparr>],
          Inr \<lparr>pk = 200453474320055, parent_id = Some 200453474320055,
                 path = Some ''101Z1Z1Z1Z1Z'',
                 parent = Some \<lparr>pk = 200453474320055, parent_id = None, path = None\<rparr>,
                 original_parent_id = None, adding = False\<rparr>)
   \<and> encode_ids_to_path [2] = Inr ''12''
   \<and> save [\<lparr>pk = 1, parent_id = Some 2, path = Some ''12''\<rparr>,
           \<lparr>pk = 2, parent_id = None, path = None\<rparr>]
          \<lparr>pk = 2, parent_id = Some 1, path = None,
             parent = Some \<lparr>pk = 1, parent_id = Some 2, path = Some ''12''\<rparr>,
             original_parent_id = Some 1, adding = False\<rparr>
       = ([\<lparr>pk = 1, parent_id = Some 2, path = Some ''12''\<rparr>,
           \<lparr>pk = 2, parent_id = Some 1, path = None\<rparr>],
          Inr \<lparr>pk = 2, parent_id = Some 1, path = None,
                 parent = Some \<lparr>pk = 1, parent_id = Some 2, path = Some ''12''\<rparr>,
                 original_parent_id = Some 1, adding = False\<rparr>)"
  by code_simp

subsection \<open>Relocating the descendants\<close>

text \<open>
  C2. The descendants are relocated by the SQL function \<^verbatim>\<open>replace\<close>, which rewrites
  every occurrence of the old path of the moved record and not only the leading one.
  Record 37 (child of the root 1, path \<^verbatim>\<open>11\<close>) has the child 2 with the path
  \<^verbatim>\<open>11211\<close>; re-parenting 37 from 1 to the root 3 stores \<^verbatim>\<open>13213\<close> for the child,
  which decodes to 3 and 39, where the path that keeps the chain under 37 is
  \<^verbatim>\<open>13211\<close>, the encoding of 3 and 37. When the moved record was a root, its old path
  is empty and \<^verbatim>\<open>replace\<close> changes nothing: the root 1 moved under the root 3 leaves
  its child 2 with the path \<^verbatim>\<open>11\<close>.
\<close>

theorem save_reparent_replaces_inner_occurrence:
  "encode_ids_to_path [1] = Inr ''11'' \<and> encode_ids_to_path [1, 37] = Inr ''11211''
   \<and> save [\<lparr>pk = 1, parent_id = None, path = None\<rparr>,
           \<lparr>pk = 37, parent_id = Some 1, path = Some ''11''\<rparr>,
           \<lparr>pk = 2, parent_id = Some 37, path = Some ''11211''\<rparr>,
           \<lparr>pk = 3, parent_id = None, path = None\<rparr>]
          \<lparr>pk = 37, parent_id = Some 3, path = Some ''11'',
             parent = Some \<lparr>pk = 3, parent_id = None, path = None\<rparr>,
             original_parent_id = Some 1, adding = False\<rparr>
       = ([\<lparr>pk = 1, parent_id = None, path = None\<rparr>,
           \<lparr>pk = 37, parent_id = Some 3, path = Some ''13''\<rparr>,
           \<lparr>pk = 2, parent_id = Some 37, path = Some ''13213''\<rparr>,
           \<lparr>pk = 3, parent_id = None, path = None\<rparr>],
          Inr \<lparr>pk = 37, parent_id = Some 3, path = Some ''13'',
                 parent = Some \<lparr>pk = 3, parent_id = None, path = None\<rparr>,
                 original_parent_id = Some 1, adding = False\<rparr>)
   \<and> decode_path_to_ids (Some ''13213'') = Inr [3, 39]
   \<and> encode_ids_to_path [3, 37] = Inr ''13211''
   \<and> fst (save [\<lparr>pk = 1, parent_id = None, path = None\<rparr>,
                \<lparr>pk = 2, parent_id = Some 1, path = Some ''11''\<rparr>,
                \<lparr>pk = 3, parent_id = None, path = None\<rparr>]
               \<lparr>pk = 1, parent_id = Some 3, path = None,
                  parent = Some \<lparr>pk = 3, parent_id = None, path = None\<rparr>,
                  original_parent_id = None, adding = False\<rparr>)
       = [\<lparr>pk = 1, parent_id = Some 3, path = Some ''13''\<rparr>,
          \<lparr>pk = 2, parent_id = Some 1, path = Some ''11''\<rparr>,
          \<lparr>pk = 3, parent_id = None, path = None\<rparr>]"
  by code_simp

subsection \<open>Siblings\<close>

text \<open>
  C7. For a root, \<^verbatim>\<open>get_siblings\<close> returns the query set as it is: for the only root
  of a table the result is the empty query set and not \<^verbatim>\<open>None\<close>, whereas a record with
  a parent and no sibling gets \<^verbatim>\<open>None\<close>.
\<close>

theorem get_siblings_of_single_root:
  "get_siblings [\<lparr>pk = 1, parent_id = None, path = None\<rparr>]
                \<lparr>pk = 1, parent_id = None, path = None\<rparr> = Some []
   \<and> get_siblings [\<lparr>pk = 1, parent_id = None, path = None\<rparr>,
                   \<lparr>pk = 2, parent_id = Some 1, path = Some ''11''\<rparr>]
                  \<lparr>pk = 2, parent_id = Some 1, path = Some ''11''\<rparr> = None"
  by code_simp

subsection \<open>The ancestor at a depth\<close>

lemma get_ancestor_above_256:
  assumes "depth self = Inr d" and "256 < d"
  shows "get_ancestor st self d = Inl IndexError"
proof -
  have t: "truthy_str (path self)" using assms by (auto simp: depth_def split: if_splits)
  then obtain ids where ids: "decode_path_to_ids (path self) = Inr ids" and d: "d = int (length ids)"
    using assms(1) by (auto simp: depth_def split: sum.splits)
  have "\<not> nat d < length ids" using d by simp
  then show ?thesis
    using assms ids by (simp add: get_ancestor_def py_is_def)
qed

text \<open>
  C8. \<^verbatim>\<open>get_ancestor\<close> compares the depth of the record and the depth asked for with
  \<^verbatim>\<open>is\<close>, which holds for equal integers from -5 to 256 only. Take the chain of the
  records 1 to 258, each the child of the one before: the path of record 258 encodes the
  identifiers 1 to 257 in 736 characters (SQLite stores it, although the column is
  declared with 255), and its depth is 257. Asked for the ancestor at its own depth, the
  record does not get itself but \<^verbatim>\<open>IndexError\<close>, whatever the table holds; the docstring
  says \<^verbatim>\<open>Returns self if :depth equals self depth\<close>.
\<close>

theorem get_ancestor_own_depth_257:
  "\<not> isl (encode_ids_to_path (map int [1..<258]))
   \<and> length (projr (encode_ids_to_path (map int [1..<258]))) = 736
   \<and> depth \<lparr>pk = 258, parent_id = Some 257,
             path = Some (projr (encode_ids_to_path (map int [1..<258])))\<rparr> = Inr 257
   \<and> (\<forall>st. get_ancestor st
               \<lparr>pk = 258, parent_id = Some 257,
                  path = Some (projr (encode_ids_to_path (map int [1..<258])))\<rparr> 257
             = Inl IndexError)"
proof -
  let ?ids = "map int [1..<258]"
  have valid: "\<forall>i \<in> set ?ids. 0 \<le> i \<and> i < 36 ^ 9" by auto
  then obtain p where p: "encode_ids_to_path ?ids = Inr p"
    using encode_ids_to_path_total[of ?ids] by auto
  have dec: "decode_path_to_ids (Some p) = Inr ?ids" using valid p by (rule decode_encode)
  have len: "length (projr (encode_ids_to_path (map int [1..<258]))) = 736" by code_simp
  then have ne: "p \<noteq> []" using p by auto
  let ?self = "\<lparr>pk = 258, parent_id = Some 257, path = Some p\<rparr>"
  have d: "depth ?self = Inr 257" using dec ne by (simp add: depth_def truthy_str_def)
  then have "get_ancestor st ?self 257 = Inl IndexError" for st
    by (rule get_ancestor_above_256) simp
  then show ?thesis using p d len by simp
qed

text \<open>
  The other parts of the statement hold as they are written: \<^verbatim>\<open>ValueError\<close> for every
  negative depth and for every depth greater than the depth of the record, \<^verbatim>\<open>get_root\<close>
  at depth 0, and at a depth strictly between what \<^verbatim>\<open>objects.get\<close> finds for the
  identifier at that position of the decoded path: a row of the table with that key. At
  its own depth the record is returned when its path is well formed and no longer than
  255 characters.
\<close>

theorem get_ancestor_by_depth:
  "(dep < 0 \<longrightarrow> get_ancestor st self dep = Inl ValueError)
   \<and> (\<forall>d. depth self = Inr d \<and> d < dep \<longrightarrow> get_ancestor st self dep = Inl ValueError)
   \<and> get_ancestor st self 0 = get_root st self
   \<and> (well_formed_path (xstr (path self)) \<and> length (xstr (path self)) \<le> 255 \<longrightarrow>
        (\<exists>d. depth self = Inr d \<and> get_ancestor st self d = Inr self))
   \<and> (\<forall>d ids. depth self = Inr d \<and> decode_path_to_ids (path self) = Inr ids
          \<and> 0 < dep \<and> dep < d \<longrightarrow>
        get_ancestor st self dep = objects_get st (ids ! nat dep))
   \<and> (\<forall>k r. objects_get st k = Inr r \<longrightarrow> pk r = k \<and> r \<in> set st)"
proof (intro conjI impI allI)
  assume "dep < 0"
  then show "get_ancestor st self dep = Inl ValueError" by (simp add: get_ancestor_def)
next
  fix d assume a: "depth self = Inr d \<and> d < dep"
  then have "0 \<le> d" using depth_nonneg by blast
  then show "get_ancestor st self dep = Inl ValueError"
    using a by (simp add: get_ancestor_def py_is_def)
next
  show "get_ancestor st self 0 = get_root st self" by (simp add: get_ancestor_def py_is_def)
next
  assume a: "well_formed_path (xstr (path self)) \<and> length (xstr (path self)) \<le> 255"
  show "\<exists>d. depth self = Inr d \<and> get_ancestor st self d = Inr self"
  proof (cases "truthy_str (path self)")
    case False
    then have "depth self = Inr 0 \<and> get_ancestor st self 0 = Inr self"
      by (simp add: depth_def get_ancestor_def py_is_def get_root_def)
    then show ?thesis by blast
  next
    case True
    then obtain p where p: "path self = Some p" "p \<noteq> []" by (auto simp: truthy_str_def)
    then have "well_formed_path p" using a by (simp add: xstr_def)
    then obtain ids where ids: "decode_path_to_ids (Some p) = Inr ids" "encode_ids_to_path ids = Inr p"
      using encode_decode by blast
    have ne: "ids \<noteq> []" using ids(2) p(2) by (auto simp: encode_ids_to_path_Nil)
    have "length ids \<le> length p" using decode_path_length[OF ids(1)] by (simp add: xstr_def)
    then have le: "length ids \<le> 255" using a p by (simp add: xstr_def)
    have d: "depth self = Inr (int (length ids))" using True p ids(1) by (simp add: depth_def)
    then have "get_ancestor st self (int (length ids)) = Inr self"
      using ne le by (simp add: get_ancestor_def py_is_def)
    then show ?thesis using d by blast
  qed
next
  fix d ids
  assume a: "depth self = Inr d \<and> decode_path_to_ids (path self) = Inr ids \<and> 0 < dep \<and> dep < d"
  then have d: "d = int (length ids)" by (auto simp: depth_def split: if_splits)
  have "0 < dep" "dep < int (length ids)" using a d by simp_all
  then have "nat dep < length ids" by linarith
  then show "get_ancestor st self dep = objects_get st (ids ! nat dep)"
    using a d by (simp add: get_ancestor_def py_is_def)
next
  fix k r assume "objects_get st k = Inr r"
  then show "pk r = k" and "r \<in> set st" using objects_get_Inr by blast+
qed

text \<open>
  Record 2 at depth 2 under 1 and 37, asked for the depths -1, 3, 2 and 1.
\<close>

theorem get_ancestor_by_depth_example:
  "get_ancestor [\<lparr>pk = 1, parent_id = None, path = None\<rparr>,
                 \<lparr>pk = 37, parent_id = Some 1, path = Some ''11''\<rparr>,
                 \<lparr>pk = 2, parent_id = Some 37, path = Some ''11211''\<rparr>]
                \<lparr>pk = 2, parent_id = Some 37, path = Some ''11211''\<rparr> (- 1) = Inl ValueError
   \<and> depth \<lparr>pk = 2, parent_id = Some 37, path = Some ''11211''\<rparr> = Inr 2
   \<and> get_ancestor [\<lparr>pk = 1, parent_id = None, path = None\<rparr>,
                 \<lparr>pk = 37, parent_id = Some 1, path = Some ''11''\<rparr>,
                 \<lparr>pk = 2, parent_id = Some 37, path = Some ''11211''\<rparr>]
                \<lparr>pk = 2, parent_id = Some 37, path = Some ''11211''\<rparr> 3 = Inl ValueError
   \<and> get_ancestor [\<lparr>pk = 1, parent_id = None, path = None\<rparr>,
                 \<lparr>pk = 37, parent_id = Some 1, path = Some ''11''\<rparr>,
                 \<lparr>pk = 2, parent_id = Some 37, path = Some ''11211''\<rparr>]
                \<lparr>pk = 2, parent_id = Some 37, path = Some ''11211''\<rparr> 2
       = Inr \<lparr>pk = 2, parent_id = Some 37, path = Some ''11211''\<rparr>
   \<and> get_ancestor [\<lparr>pk = 1, parent_id = None, path = None\<rparr>,
                 \<lparr>pk = 37, parent_id = Some 1, path = Some ''11''\<rparr>,
                 \<lparr>pk = 2, parent_id = Some 37, path = Some ''11211''\<rparr>]
                \<lparr>pk = 2, parent_id = Some 37, path = Some ''11211''\<rparr> 1
       = Inr \<lparr>pk = 37, parent_id = Some 1, path = Some ''11''\<rparr>"
proof -
  let ?st = "[\<lparr>pk = 1, parent_id = None, path = None\<rparr>,
                 \<lparr>pk = 37, parent_id = Some 1, path = Some ''11''\<rparr>,
                 \<lparr>pk = 2, parent_id = Some 37, path = Some ''11211''\<rparr>]"
  let ?self = "\<lparr>pk = 2, parent_id = Some 37, path = Some ''11211''\<rparr>"
  have d: "depth ?self = Inr 2" by code_simp
  have dec: "decode_path_to_ids (path ?self) = Inr [1, 37]" by code_simp
  have wf: "well_formed_path (xstr (path ?self)) \<and> length (xstr (path ?self)) \<le> 255"
    by code_simp
  have get: "objects_get ?st ([1, 37] ! nat 1) = Inr \<lparr>pk = 37, parent_id = Some 1, path = Some ''11''\<rparr>"
    by code_simp
  have 1: "get_ancestor ?st ?self (- 1) = Inl ValueError"
    using get_ancestor_by_depth[of "- 1" ?st ?self] by simp
  have 2: "get_ancestor ?st ?self 3 = Inl ValueError"
    using get_ancestor_by_depth[of 3 ?st ?self] d by simp
  have 3: "get_ancestor ?st ?self 2 = Inr ?self"
    using get_ancestor_by_depth[of 0 ?st ?self] wf d by auto
  have 4: "get_ancestor ?st ?self 1 = objects_get ?st ([1, 37] ! nat 1)"
    using get_ancestor_by_depth[of 1 ?st ?self] d dec by simp
  show ?thesis using 1 2 3 4 d get by simp
qed

end
